theory Spec2Isabelle
  imports Complex_Main "HOL-Library.Multiset"
begin

section \<open>Numbers, dates and identifiers\<close>

text \<open>
  A JavaScript Number is modelled by an exact rational: the decimal literals of the source
  (\<^verbatim>\<open>0.4\<close>, \<^verbatim>\<open>0.25\<close>, \<^verbatim>\<open>0.1\<close>) are the fractions they
  denote, and NaN and the infinities are outside the model (every division of the source is
  guarded by a test for a positive divisor). Concrete inputs below are chosen where IEEE
  double arithmetic gives the same result as exact arithmetic. A Date is a clock value, an
  ObjectId a natural number.
\<close>

type_synonym number = rat
type_synonym date = nat
type_synonym object_id = nat

text \<open>\<^verbatim>\<open>Math.round\<close>: the nearest integer, a tie going up.\<close>

definition Math_round :: "number \<Rightarrow> number" where
  "Math_round x = of_int \<lfloor>x + 1 / 2\<rfloor>"

section \<open>The Rating model (models/Rating.js)\<close>

record monthly_stat =
  ms_month :: number
  ms_year :: number
  ms_grades :: number
  ms_attendance :: number
  ms_homeworkCompletion :: number
  ms_classParticipation :: number
  ms_totalScore :: number

record rating =
  rating_id :: object_id
  r_student :: object_id
  r_group :: object_id
  grades :: number
  attendance :: number
  homeworkCompletion :: number
  classParticipation :: number
  totalScore :: number
  rankInGroup :: nat
  totalHomeworks :: number
  completedHomeworks :: number
  totalClasses :: number
  attendedClasses :: number
  participationCount :: number
  averageGrade :: number
  monthlyStats :: "monthly_stat list"
  lastUpdated :: date

text \<open>
  \<^verbatim>\<open>rankInGroup\<close> is a Number in the schema; the source only ever stores the default 0
  and \<^verbatim>\<open>index + 1\<close> in it, so it is a natural number here.

  The schema's defaults: what \<^verbatim>\<open>Rating.create({student, group})\<close> starts from.
\<close>

definition new_rating :: "object_id \<Rightarrow> object_id \<Rightarrow> object_id \<Rightarrow> date \<Rightarrow> rating" where
  "new_rating i s g now =
     \<lparr>rating_id = i, r_student = s, r_group = g, grades = 0, attendance = 0,
      homeworkCompletion = 0, classParticipation = 0, totalScore = 0, rankInGroup = 0,
      totalHomeworks = 0, completedHomeworks = 0, totalClasses = 0, attendedClasses = 0,
      participationCount = 0, averageGrade = 0, monthlyStats = [], lastUpdated = now\<rparr>"

text \<open>The schema's range validators (\<^verbatim>\<open>min: 0, max: 10\<close>) on a row.\<close>

definition in_scale :: "number \<Rightarrow> bool" where
  "in_scale x = (0 \<le> x \<and> x \<le> 10)"

definition schema_valid :: "rating \<Rightarrow> bool" where
  "schema_valid r =
     (in_scale (grades r) \<and> in_scale (attendance r) \<and> in_scale (homeworkCompletion r) \<and>
      in_scale (classParticipation r) \<and> in_scale (totalScore r) \<and> in_scale (averageGrade r))"

text \<open>
  \<^verbatim>\<open>ratingSchema.pre('save')\<close>, statement by statement: the total score first, from the
  components as they are at that moment; then the two percentages; then the time stamp.
\<close>

definition pre_save :: "date \<Rightarrow> rating \<Rightarrow> rating" where
  "pre_save now r =
     (let r1 = r\<lparr>totalScore :=
                  Math_round (grades r * (4 / 10) + attendance r * (25 / 100) +
                              homeworkCompletion r * (25 / 100) +
                              classParticipation r * (1 / 10))\<rparr>;
          r2 = (if totalHomeworks r1 > 0
                then r1\<lparr>homeworkCompletion :=
                          Math_round (completedHomeworks r1 / totalHomeworks r1 * 10)\<rparr>
                else r1);
          r3 = (if totalClasses r2 > 0
                then r2\<lparr>attendance :=
                          Math_round (attendedClasses r2 / totalClasses r2 * 10)\<rparr>
                else r2)
      in r3\<lparr>lastUpdated := now\<rparr>)"

text \<open>
  The weighted formula of the specification, read off a row's own component fields.
\<close>

definition weighted_score :: "rating \<Rightarrow> number" where
  "weighted_score r =
     Math_round (grades r * (4 / 10) + attendance r * (25 / 100) +
                 homeworkCompletion r * (25 / 100) + classParticipation r * (1 / 10))"

text \<open>
  \<^verbatim>\<open>doc.save()\<close> on the Rating collection (rows in insertion order). The schema's
  validators run first, on the document as it is handed over: a document that fails them is
  rejected (a ValidationError, \<^verbatim>\<open>None\<close> here) and nothing is written. Otherwise the hook
  runs, and the document replaces the row with its \<^verbatim>\<open>_id\<close>, or is inserted when there
  is none.
\<close>

definition findById :: "object_id \<Rightarrow> rating list \<Rightarrow> rating option" where
  "findById i rs = find (\<lambda>x. rating_id x = i) rs"

definition write_rating :: "rating \<Rightarrow> rating list \<Rightarrow> rating list" where
  "write_rating d rs =
     (if rating_id d \<in> set (map rating_id rs)
      then map (\<lambda>x. if rating_id x = rating_id d then d else x) rs
      else rs @ [d])"

definition save_rating :: "date \<Rightarrow> rating \<Rightarrow> rating list \<Rightarrow> rating list option" where
  "save_rating now r rs =
     (if schema_valid r then Some (write_rating (pre_save now r) rs) else None)"

section \<open>Homework and the score aggregator (updateStudentRating)\<close>

record submission =
  sub_student :: object_id
  totalGrade :: "number option"

record homework =
  hw_id :: object_id
  hw_group :: object_id
  submissions :: "submission list"

text \<open>
  One round of the \<^verbatim>\<open>forEach\<close> over the group's homework; the accumulator is
  \<^verbatim>\<open>(totalGrades, gradeCount, completedHomeworks)\<close>. In
  \<^verbatim>\<open>if (submission.totalGrade)\<close> an absent grade and the grade 0 are both falsy.
\<close>

definition tally_homework ::
  "object_id \<Rightarrow> homework \<Rightarrow> number \<times> number \<times> number \<Rightarrow> number \<times> number \<times> number" where
  "tally_homework studentId hw acc =
     (case acc of (totalGrades, gradeCount, completed) \<Rightarrow>
        (case find (\<lambda>sub. sub_student sub = studentId) (submissions hw) of
           None \<Rightarrow> (totalGrades, gradeCount, completed)
         | Some sub \<Rightarrow>
             (case totalGrade sub of
                None \<Rightarrow> (totalGrades, gradeCount, completed + 1)
              | Some g \<Rightarrow>
                  if g \<noteq> 0 then (totalGrades + g, gradeCount + 1, completed + 1)
                  else (totalGrades, gradeCount, completed + 1))))"

text \<open>
  \<^verbatim>\<open>updateStudentRating(studentId, groupId)\<close> on the Homework and Rating collections:
  nothing happens without a Rating row; otherwise the counters are re-derived from the
  group's homework and the row is saved. The \<^verbatim>\<open>catch\<close> logs a failed save and goes on.
\<close>

definition updateStudentRating ::
  "date \<Rightarrow> homework list \<Rightarrow> object_id \<Rightarrow> object_id \<Rightarrow> rating list \<Rightarrow> rating list" where
  "updateStudentRating now hws studentId groupId rs =
     (case find (\<lambda>r. r_student r = studentId \<and> r_group r = groupId) rs of
        None \<Rightarrow> rs
      | Some rating \<Rightarrow>
          (let hw = filter (\<lambda>h. hw_group h = groupId) hws;
               totalHomeworks' = of_nat (length hw);
               (totalGrades, gradeCount, completed) = fold (tally_homework studentId) hw (0, 0, 0);
               average = (if gradeCount > 0 then totalGrades / gradeCount else 0);
               rating' = rating\<lparr>averageGrade := average, grades := average,
                                 totalHomeworks := totalHomeworks',
                                 completedHomeworks := completed\<rparr>
           in (case save_rating now rating' rs of None \<Rightarrow> rs | Some rs' \<Rightarrow> rs')))"

section \<open>Users, errors and the auth middleware\<close>

datatype role = Student | Teacher | Parent | Admin

record achievement =
  a_title :: string
  a_description :: string
  earnedAt :: date

record completed_task =
  taskId :: int
  completedAt :: date
  ct_proof :: string
  ct_notes :: string
  pointsEarned :: number

datatype parent_type = Father | Mother | Guardian

text \<open>
  The fields of a User the handlers below read or write, and those the schema validates.
  \<^verbatim>\<open>u_group\<close> is the group as \<^verbatim>\<open>populate('group')\<close> yields it: \<^verbatim>\<open>None\<close> for a
  student with no group. An optional field that is not set is \<^verbatim>\<open>None\<close>.
\<close>

record user =
  user_id :: object_id
  firstName :: string
  lastName :: string
  password :: string
  role :: role
  u_studentId :: "string option"
  u_parentPhone :: "string option"
  u_teacherId :: "string option"
  u_subject :: "string option"
  u_parentType :: "parent_type option"
  u_childName :: "string option"
  u_isActive :: bool
  u_group :: "object_id option"
  children :: "object_id list"
  points :: number
  achievements :: "achievement list"
  completedBonusTasks :: "completed_task list"

text \<open>
  The error responses, named by the kinds of the specification:
  \<^item> \<^verbatim>\<open>Unauthorized\<close>: 401 of the auth middleware;
  \<^item> \<^verbatim>\<open>NotAuthorized\<close>: 403 (\<^verbatim>\<open>authorize\<close>, and the permission check of the rating route);
  \<^item> \<^verbatim>\<open>NotFound m\<close>: 404 with message \<^verbatim>\<open>m\<close>;
  \<^item> \<^verbatim>\<open>InsufficientPoints\<close>: 400 'Insufficient points';
  \<^item> \<^verbatim>\<open>AlreadyClaimed\<close>: 400 'Reward already claimed';
  \<^item> \<^verbatim>\<open>PreviousRewardRequired\<close>: 400 'Must claim previous rewards first';
  \<^item> \<^verbatim>\<open>AlreadyCompleted\<close>: 400 'Task already completed';
  \<^item> \<^verbatim>\<open>ServerError\<close>: 500, the \<^verbatim>\<open>catch\<close> of every handler.
\<close>

datatype error =
    Unauthorized
  | NotAuthorized
  | NotFound string
  | InsufficientPoints
  | AlreadyClaimed
  | PreviousRewardRequired
  | AlreadyCompleted
  | ServerError

text \<open>
  The validators of the User schema, which \<^verbatim>\<open>user.save()\<close> runs on the whole document:
  \<^verbatim>\<open>required\<close> (a string must be present and not empty), \<^verbatim>\<open>maxlength\<close> 50 on the
  names, \<^verbatim>\<open>minlength\<close> 6 on the password, and the fields required for the role. The
  \<^verbatim>\<open>enum\<close> validators hold by the types. \<^verbatim>\<open>findByIdAndUpdate\<close> without
  \<^verbatim>\<open>runValidators\<close>, as the profile route calls it, runs none of them, so a stored user
  need not pass.
\<close>

definition required_string :: "string option \<Rightarrow> bool" where
  "required_string s = (case s of None \<Rightarrow> False | Some v \<Rightarrow> v \<noteq> [])"

definition user_schema_valid :: "user \<Rightarrow> bool" where
  "user_schema_valid u =
     (firstName u \<noteq> [] \<and> length (firstName u) \<le> 50 \<and>
      lastName u \<noteq> [] \<and> length (lastName u) \<le> 50 \<and>
      password u \<noteq> [] \<and> 6 \<le> length (password u) \<and>
      (if role u = Student
       then required_string (u_studentId u) \<and> required_string (u_parentPhone u)
       else if role u = Teacher
       then required_string (u_teacherId u) \<and> required_string (u_subject u)
       else if role u = Parent
       then u_parentType u \<noteq> None \<and> required_string (u_childName u)
       else True))"

definition findUser :: "object_id \<Rightarrow> user list \<Rightarrow> user option" where
  "findUser i us = find (\<lambda>u. user_id u = i) us"

text \<open>
  \<^verbatim>\<open>auth\<close>: the request's token, once verified, names a user id; the user is loaded
  and must be active. \<^verbatim>\<open>authorize(...roles)\<close> then checks the role.
\<close>

definition auth :: "user list \<Rightarrow> object_id \<Rightarrow> error + user" where
  "auth us i =
     (case findUser i us of
        None \<Rightarrow> Inl Unauthorized
      | Some u \<Rightarrow> if \<not> u_isActive u then Inl Unauthorized else Inr u)"

definition authorize :: "role list \<Rightarrow> user \<Rightarrow> bool" where
  "authorize roles u = (role u \<in> set roles)"

section \<open>The rank resolver (routes/ratings.js)\<close>

text \<open>
  Modelled from the spec: the document store's query
  \<^verbatim>\<open>Rating.find({group}).sort({totalScore: -1})\<close>. The store is not part of the
  repository; the handler asks for descending total score only, and the order of rows with
  equal scores is taken as the specification has it, the order of insertion (a stable sort).
\<close>

definition find_group_sorted :: "object_id \<Rightarrow> rating list \<Rightarrow> rating list" where
  "find_group_sorted g rs = sort_key (\<lambda>r. - totalScore r) (filter (\<lambda>r. r_group r = g) rs)"

text \<open>\<^verbatim>\<open>ratings.forEach((rating, index) => { rating.rankInGroup = index + 1; })\<close>\<close>

definition assign_ranks :: "rating list \<Rightarrow> rating list" where
  "assign_ranks rs = map (\<lambda>(index, r). r\<lparr>rankInGroup := index + 1\<rparr>) (enumerate 0 rs)"

text \<open>
  \<^verbatim>\<open>await Promise.all(ratings.map(r => r.save()))\<close> on the collection: every document
  is saved on its own; a rejected save writes nothing and leaves the others alone.
\<close>

definition save_all :: "date \<Rightarrow> rating list \<Rightarrow> rating list \<Rightarrow> rating list" where
  "save_all now docs rs =
     fold (\<lambda>d rs. case save_rating now d rs of None \<Rightarrow> rs | Some rs' \<Rightarrow> rs') docs rs"

text \<open>
  The ranking pass both GET handlers contain (query, \<^verbatim>\<open>forEach\<close>, save of every
  document): what the handler holds afterwards, and the collection afterwards. When every
  save is accepted the handler holds the hooked documents; a rejected save makes
  \<^verbatim>\<open>Promise.all\<close> throw, which the \<^verbatim>\<open>catch\<close> of the handler answers with a 500.
\<close>

definition resolve ::
  "date \<Rightarrow> object_id \<Rightarrow> rating list \<Rightarrow> (error + rating list) \<times> rating list" where
  "resolve now g rs =
     (let ratings = assign_ranks (find_group_sorted g rs)
      in (if list_all schema_valid ratings then Inr (map (pre_save now) ratings)
          else Inl ServerError,
          save_all now ratings rs))"




section \<open>Rewards (models/Reward.js, routes/rewards.js)\<close>

datatype claim_status = Pending | Delivered | Cancelled

record claim =
  c_student :: object_id
  claimedAt :: date
  status :: claim_status

record reward =
  reward_id :: object_id
  pointsRequired :: number
  order :: number
  isActive :: bool
  claimedBy :: "claim list"

record store =
  users :: "user list"
  rewards :: "reward list"

text \<open>
  The two writes of the claim handler, each a request of its own to the document store:
  \<^verbatim>\<open>User.findByIdAndUpdate(id, {$inc: {points: n}})\<close> and \<^verbatim>\<open>reward.save()\<close>.
\<close>

datatype store_write = IncPoints object_id number | SaveReward reward

fun inc_points :: "object_id \<Rightarrow> number \<Rightarrow> user list \<Rightarrow> user list" where
  "inc_points i n [] = []"
| "inc_points i n (u # us) =
     (if user_id u = i then u\<lparr>points := points u + n\<rparr> # us else u # inc_points i n us)"

definition findReward :: "object_id \<Rightarrow> reward list \<Rightarrow> reward option" where
  "findReward i rws = find (\<lambda>r. reward_id r = i) rws"

definition write_reward :: "reward \<Rightarrow> reward list \<Rightarrow> reward list" where
  "write_reward d rws = map (\<lambda>x. if reward_id x = reward_id d then d else x) rws"

fun apply_write :: "store_write \<Rightarrow> store \<Rightarrow> store" where
  "apply_write (IncPoints i n) st = st\<lparr>users := inc_points i n (users st)\<rparr>"
| "apply_write (SaveReward d) st = st\<lparr>rewards := write_reward d (rewards st)\<rparr>"

definition claimed_by :: "object_id \<Rightarrow> reward \<Rightarrow> bool" where
  "claimed_by studentId r = (find (\<lambda>c. c_student c = studentId) (claimedBy r) \<noteq> None)"

text \<open>
  \<^verbatim>\<open>POST /api/rewards/:id/claim\<close> (auth, authorize('student')) up to its writes: the
  checks in the order of the source, then the claim pushed on the loaded document, the
  debit and the save.
\<close>

definition claim_plan :: "date \<Rightarrow> store \<Rightarrow> object_id \<Rightarrow> object_id \<Rightarrow> error + store_write list" where
  "claim_plan now st requester rewardId =
     (case auth (users st) requester of
        Inl e \<Rightarrow> Inl e
      | Inr u \<Rightarrow>
          if \<not> authorize [Student] u then Inl NotAuthorized
          else
            (case findReward rewardId (rewards st) of
               None \<Rightarrow> Inl (NotFound ''Reward not found'')
             | Some reward \<Rightarrow>
                 if points u < pointsRequired reward then Inl InsufficientPoints
                 else if claimed_by (user_id u) reward then Inl AlreadyClaimed
                 else
                   (let previousReward =
                          find (\<lambda>r. order r = order reward - 1 \<and> isActive r) (rewards st);
                        blocked =
                          (case previousReward of
                             None \<Rightarrow> False
                           | Some p \<Rightarrow> \<not> claimed_by (user_id u) p)
                    in if blocked then Inl PreviousRewardRequired
                       else Inr [IncPoints (user_id u) (- pointsRequired reward),
                                 SaveReward (reward\<lparr>claimedBy := claimedBy reward @
                                   [\<lparr>c_student = user_id u, claimedAt = now,
                                     status = Pending\<rparr>]\<rparr>)])))"

text \<open>
  The handler with a store that serves the first \<^verbatim>\<open>k\<close> writes and fails the next one:
  the failed \<^verbatim>\<open>await\<close> throws, the \<^verbatim>\<open>catch\<close> answers 500, and what was written
  stays written (the source has no transaction and no compensation).
\<close>

definition claim_reward_upto ::
  "nat \<Rightarrow> date \<Rightarrow> store \<Rightarrow> object_id \<Rightarrow> object_id \<Rightarrow> (error + unit) \<times> store" where
  "claim_reward_upto k now st requester rewardId =
     (case claim_plan now st requester rewardId of
        Inl e \<Rightarrow> (Inl e, st)
      | Inr ws \<Rightarrow>
          (if k < length ws then Inl ServerError else Inr (), fold apply_write (take k ws) st))"

text \<open>The handler when every write is served.\<close>

definition claim_reward ::
  "date \<Rightarrow> store \<Rightarrow> object_id \<Rightarrow> object_id \<Rightarrow> (error + unit) \<times> store" where
  "claim_reward now st requester rewardId =
     (case claim_plan now st requester rewardId of
        Inl e \<Rightarrow> (Inl e, st)
      | Inr ws \<Rightarrow> (Inr (), fold apply_write ws st))"

section \<open>Bonus tasks (the second module of routes/ratings.js)\<close>

text \<open>
  \<^verbatim>\<open>bonusTasksData\<close>: the identifier and the points of each task; the descriptive fields
  (title, type, category, difficulty, time limit, requirements) are read by no check.
\<close>

record bonus_task =
  task_id :: int
  task_points :: number

definition bonusTasksData :: "bonus_task list" where
  "bonusTasksData =
     [\<lparr>task_id = 1, task_points = 10\<rparr>, \<lparr>task_id = 2, task_points = 25\<rparr>,
      \<lparr>task_id = 3, task_points = 15\<rparr>, \<lparr>task_id = 4, task_points = 50\<rparr>,
      \<lparr>task_id = 5, task_points = 30\<rparr>, \<lparr>task_id = 6, task_points = 40\<rparr>,
      \<lparr>task_id = 7, task_points = 35\<rparr>, \<lparr>task_id = 8, task_points = 20\<rparr>]"

definition findTask :: "int \<Rightarrow> bonus_task option" where
  "findTask i = find (\<lambda>t. task_id t = i) bonusTasksData"

text \<open>The milestone branch: the achievement pushed for a completed-task count.\<close>

definition milestone :: "date \<Rightarrow> nat \<Rightarrow> achievement list" where
  "milestone now completedCount =
     (if completedCount = 1
      then [\<lparr>a_title = ''Birinchi bonus vazifa'',
             a_description = ''Birinchi bonus vazifangizni muvaffaqiyatli bajardingiz!'',
             earnedAt = now\<rparr>]
      else if completedCount = 5
      then [\<lparr>a_title = ''Faol o'quvchi'',
             a_description = ''5 ta bonus vazifani bajardingiz!'',
             earnedAt = now\<rparr>]
      else if completedCount = 10
      then [\<lparr>a_title = ''Bonus ustasi'',
             a_description = ''10 ta bonus vazifani bajardingiz!'',
             earnedAt = now\<rparr>]
      else [])"

definition write_user :: "user \<Rightarrow> user list \<Rightarrow> user list" where
  "write_user d us = map (\<lambda>x. if user_id x = user_id d then d else x) us"

record completion =
  res_pointsEarned :: number
  res_totalPoints :: number
  res_newAchievements :: "achievement list"

text \<open>
  \<^verbatim>\<open>user.completedBonusTasks.push(...)\<close>, the credit and the milestone, on the loaded
  user document.
\<close>

definition credit_task :: "date \<Rightarrow> bonus_task \<Rightarrow> string \<Rightarrow> string \<Rightarrow> user \<Rightarrow> user" where
  "credit_task now task prf nts u =
     (let u1 = u\<lparr>completedBonusTasks := completedBonusTasks u @
                  [\<lparr>taskId = task_id task, completedAt = now, ct_proof = prf, ct_notes = nts,
                    pointsEarned = task_points task\<rparr>]\<rparr>;
          u2 = u1\<lparr>points := points u1 + task_points task\<rparr>;
          completedCount = length (completedBonusTasks u2)
      in u2\<lparr>achievements := achievements u2 @ milestone now completedCount\<rparr>)"

text \<open>
  \<^verbatim>\<open>POST /api/bonus-tasks/:taskId/complete\<close> (auth). The body's \<^verbatim>\<open>proof\<close> and
  \<^verbatim>\<open>notes\<close> are optional strings (\<^verbatim>\<open>proof || ''\<close>); \<^verbatim>\<open>parseInt\<close> of the path
  parameter is the integer given here (a NaN finds no task, like any identifier outside
  the table). \<^verbatim>\<open>await user.save()\<close> validates the document first: when a validator
  fails it throws, nothing is written, and the \<^verbatim>\<open>catch\<close> answers 500.
\<close>

definition complete_bonus_task ::
  "date \<Rightarrow> user list \<Rightarrow> object_id \<Rightarrow> int \<Rightarrow> string option \<Rightarrow> string option \<Rightarrow>
   (error + completion) \<times> user list" where
  "complete_bonus_task now us requester tid prf nts =
     (case auth us requester of
        Inl e \<Rightarrow> (Inl e, us)
      | Inr ru \<Rightarrow>
          (case findTask tid of
             None \<Rightarrow> (Inl (NotFound ''Bonus task not found''), us)
           | Some task \<Rightarrow>
               (case findUser (user_id ru) us of
                  None \<Rightarrow> (Inl ServerError, us)
                | Some u \<Rightarrow>
                    if find (\<lambda>ct. taskId ct = tid) (completedBonusTasks u) \<noteq> None
                    then (Inl AlreadyCompleted, us)
                    else
                      (let u' = credit_task now task (case prf of None \<Rightarrow> [] | Some s \<Rightarrow> s)
                                  (case nts of None \<Rightarrow> [] | Some s \<Rightarrow> s) u
                       in if \<not> user_schema_valid u' then (Inl ServerError, us)
                          else (Inr \<lparr>res_pointsEarned = task_points task,
                                     res_totalPoints = points u',
                                     res_newAchievements =
                                       (if achievements u' = [] then []
                                        else [last (achievements u')])\<rparr>,
                                write_user u' us)))))"

section \<open>Sequences of requests\<close>

text \<open>A completion request: clock, requester, task identifier, proof, notes.\<close>

type_synonym completion_request = "date \<times> object_id \<times> int \<times> string option \<times> string option"

definition complete_step :: "completion_request \<Rightarrow> user list \<Rightarrow> user list" where
  "complete_step req us =
     (case req of (now, requester, tid, prf, nts) \<Rightarrow>
        snd (complete_bonus_task now us requester tid prf nts))"

definition run_completions :: "completion_request list \<Rightarrow> user list \<Rightarrow> user list" where
  "run_completions reqs us = fold complete_step reqs us"

text \<open>
  The operations on the point balance: the credit of a bonus-task completion and the debit
  of a reward claim. No other statement of the repository writes \<^verbatim>\<open>points\<close>.
\<close>

datatype ledger_op =
    Credit date object_id int "string option" "string option"
  | Debit date object_id object_id

fun ledger_step :: "ledger_op \<Rightarrow> store \<Rightarrow> store" where
  "ledger_step (Credit now requester tid prf nts) st =
     st\<lparr>users := snd (complete_bonus_task now (users st) requester tid prf nts)\<rparr>"
| "ledger_step (Debit now requester rewardId) st = snd (claim_reward now st requester rewardId)"

definition run_ledger :: "ledger_op list \<Rightarrow> store \<Rightarrow> store" where
  "run_ledger ops st = fold ledger_step ops st"

definition balance :: "object_id \<Rightarrow> store \<Rightarrow> number" where
  "balance i st = (case findUser i (users st) of None \<Rightarrow> 0 | Some u \<Rightarrow> points u)"

section \<open>Concrete inputs\<close>

text \<open>
  The Rating row of a student of group 1, at the schema's defaults (as
  \<^verbatim>\<open>PUT /api/ratings/student/:studentId\<close> creates it for a student who has none), and
  one homework of the group, submitted by the student and graded 10.
\<close>

definition registered :: "rating list" where
  "registered = [new_rating 1 1 1 0]"

definition graded_homework :: "homework list" where
  "graded_homework =
     [\<lparr>hw_id = 1, hw_group = 1, submissions = [\<lparr>sub_student = 1, totalGrade = Some 10\<rparr>]\<rparr>]"

text \<open>
  The document \<^verbatim>\<open>updateStudentRating\<close> hands to \<^verbatim>\<open>save\<close> for that student: average
  grade 10, one homework out of one completed.
\<close>

definition graded_row :: rating where
  "graded_row =
     (new_rating 1 1 1 0)\<lparr>averageGrade := 10, grades := 10, totalHomeworks := 1,
                           completedHomeworks := 1\<rparr>"

text \<open>
  Three rows of group 1, inserted in the order A, B, C, with total scores 8, 8 and 5; each
  total is the weighted score of the row's components.
\<close>

definition row_A :: rating where
  "row_A = (new_rating 1 11 1 0)\<lparr>grades := 8, attendance := 6, homeworkCompletion := 10,
                                 classParticipation := 4, totalScore := 8\<rparr>"

definition row_B :: rating where
  "row_B = (new_rating 2 12 1 0)\<lparr>grades := 8, attendance := 6, homeworkCompletion := 10,
                                 classParticipation := 4, totalScore := 8\<rparr>"

definition row_C :: rating where
  "row_C = (new_rating 3 13 1 0)\<lparr>grades := 5, attendance := 5, homeworkCompletion := 5,
                                 classParticipation := 5, totalScore := 5\<rparr>"

definition three_rows :: "rating list" where
  "three_rows = [row_A, row_B, row_C]"




definition stale_row :: rating where
  "stale_row = (new_rating 1 1 1 1)\<lparr>averageGrade := 10, grades := 10, totalHomeworks := 1,
      completedHomeworks := 1, homeworkCompletion := 10, totalScore := 4\<rparr>"

text \<open>
  The stale row next to a row of total score 5. A row of group 1 as a teacher's update of
  the class counters hands it to \<^verbatim>\<open>save\<close> (5 classes attended out of 2), and as the
  save stores it. A collection with the stale row, that row, and a row of group 2.
\<close>

definition stale_pair :: "rating list" where
  "stale_pair = [stale_row, row_C]"

definition overbooked_put :: rating where
  "overbooked_put = (new_rating 2 12 1 0)\<lparr>attendedClasses := 5, totalClasses := 2\<rparr>"

definition overbooked :: rating where
  "overbooked = pre_save 3 overbooked_put"


text \<open>
  A student with 100 points and a catalogue of three rewards in a chain; the same catalogue
  with the first reward retired.
\<close>

definition buyer :: user where
  "buyer = \<lparr>user_id = 5, firstName = ''Ali'', lastName = ''Valiyev'',
            password = ''teacher123'', role = Student, u_studentId = Some ''STU001'',
            u_parentPhone = Some ''+998901234567'', u_teacherId = None, u_subject = None,
            u_parentType = None, u_childName = None,
            u_isActive = True, u_group = Some 1, children = [],
            points = 100, achievements = [], completedBonusTasks = []\<rparr>"

definition pencil :: reward where
  "pencil = \<lparr>reward_id = 11, pointsRequired = 10, order = 1, isActive = True, claimedBy = []\<rparr>"

definition book :: reward where
  "book = \<lparr>reward_id = 12, pointsRequired = 20, order = 2, isActive = True, claimedBy = []\<rparr>"

definition laptop :: reward where
  "laptop = \<lparr>reward_id = 13, pointsRequired = 500, order = 3, isActive = True, claimedBy = []\<rparr>"

definition shop :: store where
  "shop = \<lparr>users = [buyer], rewards = [pencil, book, laptop]\<rparr>"

definition shop_retired :: store where
  "shop_retired = \<lparr>users = [buyer], rewards = [pencil\<lparr>isActive := False\<rparr>, book]\<rparr>"

text \<open>
  Task 3 of the table; the student after completing it once at clock 7; five different
  tasks completed in a row; and a run of claims and completions.
\<close>

definition helper_task :: bonus_task where
  "helper_task = \<lparr>task_id = 3, task_points = 15\<rparr>"

definition veteran :: user where
  "veteran = credit_task 7 helper_task [] [] buyer"

text \<open>
  The same student after \<^verbatim>\<open>PUT /api/users/profile\<close> stored a first name of 51
  characters (the route updates without running the validators).
\<close>

definition longname :: user where
  "longname = buyer\<lparr>firstName := replicate 51 CHR ''a''\<rparr>"

definition five_tasks :: "completion_request list" where
  "five_tasks = [(1, 5, 1, None, None), (2, 5, 2, None, None), (3, 5, 3, None, None),
                 (4, 5, 4, None, None), (5, 5, 5, None, None)]"

definition shop_ops :: "ledger_op list" where
  "shop_ops = [Debit 0 5 12, Debit 1 5 13, Debit 2 5 11, Credit 3 5 3 None None,
               Credit 4 5 3 None None, Debit 5 5 12]"

section \<open>Evaluation of roundings\<close>

lemma floor_numeral_quotient [simp]:
  "\<lfloor>(numeral a / numeral b :: rat)\<rfloor> = numeral a div numeral b"
  using floor_divide_of_int_eq [of "numeral a" "numeral b", where ?'a = rat] by simp

lemma floor_one_half [simp]: "\<lfloor>(1 / 2 :: rat)\<rfloor> = 0"
  by linarith

lemma Math_round_int [simp]: "Math_round (of_int k) = of_int k"
proof -
  have "\<lfloor>(of_int k :: rat) + 1 / 2\<rfloor> = k" by linarith
  then show ?thesis by (simp add: Math_round_def)
qed

lemma Math_round_zero [simp]: "Math_round 0 = 0"
  using Math_round_int [of 0] by simp

lemma Math_round_numeral [simp]: "Math_round (numeral n) = numeral n"
  using Math_round_int [of "numeral n"] by simp

section \<open>The save hook\<close>

lemma findById_write_rating: "findById (rating_id d) (write_rating d rs) = Some d"
  unfolding findById_def write_rating_def by (induction rs) auto

lemma rating_id_pre_save [simp]: "rating_id (pre_save now r) = rating_id r"
  by (simp add: pre_save_def Let_def)

lemma r_group_pre_save [simp]: "r_group (pre_save now r) = r_group r"
  by (simp add: pre_save_def Let_def)

lemma rankInGroup_pre_save [simp]: "rankInGroup (pre_save now r) = rankInGroup r"
  by (simp add: pre_save_def Let_def)

lemma save_rating_Some:
  "(save_rating now r rs = Some rs') = (schema_valid r \<and> rs' = write_rating (pre_save now r) rs)"
  by (auto simp: save_rating_def)

lemma findById_save_rating:
  "save_rating now r rs = Some rs' \<Longrightarrow> findById (rating_id r) rs' = Some (pre_save now r)"
  using findById_write_rating [of "pre_save now r" rs] by (simp add: save_rating_Some)

text \<open>
  What the hook does establish: the stored total is the weighted score of the components
  as they were when \<^verbatim>\<open>save\<close> was called.
\<close>

lemma totalScore_pre_save: "totalScore (pre_save now r) = weighted_score r"
  by (simp add: pre_save_def weighted_score_def Let_def)

lemma graded_row_valid: "schema_valid graded_row"
  by (simp add: graded_row_def new_rating_def schema_valid_def in_scale_def)

text \<open>
  C1. After a save, the stored \<^verbatim>\<open>totalScore\<close> should be the weighted, rounded score of
  the row's own stored components. The hook computes the total before it refreshes
  \<^verbatim>\<open>homeworkCompletion\<close> and \<^verbatim>\<open>attendance\<close>: for the row of a student whose only
  homework was graded 10, the save is accepted and stores \<^verbatim>\<open>totalScore = 4\<close> next to
  \<^verbatim>\<open>homeworkCompletion = 10\<close>, while the formula on the stored components gives 7.
\<close>

theorem save_totalScore_stale:
  "save_rating 2 graded_row registered = Some [pre_save 2 graded_row] \<and>
   grades (pre_save 2 graded_row) = 10 \<and>
   attendance (pre_save 2 graded_row) = 0 \<and>
   homeworkCompletion (pre_save 2 graded_row) = 10 \<and>
   classParticipation (pre_save 2 graded_row) = 0 \<and>
   totalScore (pre_save 2 graded_row) = 4 \<and>
   weighted_score (pre_save 2 graded_row) = 7"
proof -
  have stored: "save_rating 2 graded_row registered = Some [pre_save 2 graded_row]"
    using graded_row_valid
    by (simp add: save_rating_def write_rating_def registered_def graded_row_def new_rating_def)
  have hook: "pre_save 2 graded_row =
      (new_rating 1 1 1 2)\<lparr>averageGrade := 10, grades := 10, totalHomeworks := 1,
                            completedHomeworks := 1, homeworkCompletion := 10,
                            totalScore := 4\<rparr>"
    by (simp add: graded_row_def new_rating_def pre_save_def Let_def)
  show ?thesis
    unfolding stored unfolding hook
    by (simp add: weighted_score_def new_rating_def Math_round_def)
qed

text \<open>
  C2. After a save that is accepted, the row read back from the collection is the hooked
  document: its counters are those the save was called with,
  \<^verbatim>\<open>homeworkCompletion\<close> is \<^verbatim>\<open>round(completedHomeworks / totalHomeworks * 10)\<close> when
  \<^verbatim>\<open>totalHomeworks > 0\<close> and is unchanged otherwise, and \<^verbatim>\<open>attendance\<close> follows
  \<^verbatim>\<open>attendedClasses / totalClasses\<close> in the same way.
\<close>

theorem save_percentages:
  assumes "save_rating now r rs = Some rs'"
  shows
  "\<exists>d. findById (rating_id r) rs' = Some d \<and>
     totalHomeworks d = totalHomeworks r \<and>
     completedHomeworks d = completedHomeworks r \<and>
     totalClasses d = totalClasses r \<and>
     attendedClasses d = attendedClasses r \<and>
     homeworkCompletion d =
       (if totalHomeworks d > 0 then Math_round (completedHomeworks d / totalHomeworks d * 10)
        else homeworkCompletion r) \<and>
     attendance d =
       (if totalClasses d > 0 then Math_round (attendedClasses d / totalClasses d * 10)
        else attendance r)"
proof (intro exI [of _ "pre_save now r"] conjI)
  show "findById (rating_id r) rs' = Some (pre_save now r)"
    using assms by (rule findById_save_rating)
  show "totalHomeworks (pre_save now r) = totalHomeworks r"
    and "completedHomeworks (pre_save now r) = completedHomeworks r"
    and "totalClasses (pre_save now r) = totalClasses r"
    and "attendedClasses (pre_save now r) = attendedClasses r"
    by (simp_all add: pre_save_def Let_def)
  show "homeworkCompletion (pre_save now r) =
     (if totalHomeworks (pre_save now r) > 0
      then Math_round (completedHomeworks (pre_save now r) / totalHomeworks (pre_save now r) * 10)
      else homeworkCompletion r)"
    by (simp add: pre_save_def Let_def)
  show "attendance (pre_save now r) =
     (if totalClasses (pre_save now r) > 0
      then Math_round (attendedClasses (pre_save now r) / totalClasses (pre_save now r) * 10)
      else attendance r)"
    by (simp add: pre_save_def Let_def)
qed

text \<open>
  At the graded row: one homework out of one gives \<^verbatim>\<open>homeworkCompletion = 10\<close>; no class
  was held, so \<^verbatim>\<open>attendance\<close> stays 0.
\<close>

theorem save_percentages_example:
  "save_rating 2 graded_row registered = Some [pre_save 2 graded_row] \<and>
   totalHomeworks graded_row = 1 \<and> completedHomeworks graded_row = 1 \<and>
   totalClasses graded_row = 0 \<and> attendance graded_row = 0 \<and>
   map homeworkCompletion [pre_save 2 graded_row] = [10] \<and>
   map attendance [pre_save 2 graded_row] = [0]"
proof -
  have stored: "save_rating 2 graded_row registered = Some [pre_save 2 graded_row]"
    using graded_row_valid
    by (simp add: save_rating_def write_rating_def registered_def graded_row_def new_rating_def)
  have fields: "totalHomeworks graded_row = 1" "completedHomeworks graded_row = 1"
    "totalClasses graded_row = 0" "attendance graded_row = 0" "rating_id graded_row = 1"
    by (simp_all add: graded_row_def new_rating_def)
  from save_percentages [OF stored] obtain d where
    d: "findById (rating_id graded_row) [pre_save 2 graded_row] = Some d"
       "totalHomeworks d = totalHomeworks graded_row"
       "completedHomeworks d = completedHomeworks graded_row"
       "totalClasses d = totalClasses graded_row"
       "homeworkCompletion d =
         (if totalHomeworks d > 0 then Math_round (completedHomeworks d / totalHomeworks d * 10)
          else homeworkCompletion graded_row)"
       "attendance d =
         (if totalClasses d > 0 then Math_round (attendedClasses d / totalClasses d * 10)
          else attendance graded_row)"
    by blast
  from d(1) have "d = pre_save 2 graded_row"
    by (simp add: findById_def split: if_splits)
  with d(2-) fields have "homeworkCompletion (pre_save 2 graded_row) = 10"
    and "attendance (pre_save 2 graded_row) = 0"
    by simp_all
  with stored fields show ?thesis by simp
qed

section \<open>The score aggregator\<close>

text \<open>
  C3. Two calls of \<^verbatim>\<open>updateStudentRating\<close> in a row on the same facts should leave the
  same Rating row. For a student whose row is at the defaults and one homework graded 10 they do not, even
  at the same clock value: the first call stores \<^verbatim>\<open>totalScore = 4\<close> (computed before
  \<^verbatim>\<open>homeworkCompletion\<close> became 10), the second stores 7.
\<close>

theorem updateStudentRating_twice_differs:
  "map totalScore (updateStudentRating 2 graded_homework 1 1 registered) = [4] \<and>
   map totalScore
     (updateStudentRating 2 graded_homework 1 1
        (updateStudentRating 2 graded_homework 1 1 registered)) = [7] \<and>
   updateStudentRating 2 graded_homework 1 1
     (updateStudentRating 2 graded_homework 1 1 registered) \<noteq>
   updateStudentRating 2 graded_homework 1 1 registered"
proof -
  have first: "updateStudentRating 2 graded_homework 1 1 registered =
      [(new_rating 1 1 1 2)\<lparr>averageGrade := 10, grades := 10, totalHomeworks := 1,
                             completedHomeworks := 1, homeworkCompletion := 10,
                             totalScore := 4\<rparr>]"
    by (simp add: updateStudentRating_def graded_homework_def registered_def new_rating_def
        tally_homework_def save_rating_def schema_valid_def in_scale_def write_rating_def
        pre_save_def Let_def)
  have second: "updateStudentRating 2 graded_homework 1 1
      [(new_rating 1 1 1 2)\<lparr>averageGrade := 10, grades := 10, totalHomeworks := 1,
                             completedHomeworks := 1, homeworkCompletion := 10,
                             totalScore := 4\<rparr>] =
      [(new_rating 1 1 1 2)\<lparr>averageGrade := 10, grades := 10, totalHomeworks := 1,
                             completedHomeworks := 1, homeworkCompletion := 10,
                             totalScore := 7\<rparr>]"
    by (simp add: updateStudentRating_def graded_homework_def new_rating_def
        tally_homework_def save_rating_def schema_valid_def in_scale_def write_rating_def
        pre_save_def Let_def Math_round_def)
  show ?thesis
    unfolding first second by (simp add: new_rating_def)
qed

section \<open>The rank resolver\<close>

lemma assign_ranks_zip:
  "assign_ranks rs = map (\<lambda>(i, r). r\<lparr>rankInGroup := Suc i\<rparr>) (zip [0..<length rs] rs)"
  by (simp add: assign_ranks_def enumerate_eq_zip)

lemma length_assign_ranks [simp]: "length (assign_ranks rs) = length rs"
  by (simp add: assign_ranks_def)

lemma nth_assign_ranks:
  "i < length rs \<Longrightarrow> assign_ranks rs ! i = (rs ! i)\<lparr>rankInGroup := Suc i\<rparr>"
  by (simp add: assign_ranks_zip)

lemma map_rankInGroup_assign_ranks:
  "map rankInGroup (assign_ranks rs) = [1..<Suc (length rs)]"
proof -
  have "map rankInGroup (assign_ranks rs) = map (Suc \<circ> fst) (enumerate 0 rs)"
    by (simp add: assign_ranks_def case_prod_unfold comp_def)
  also have "\<dots> = map Suc (map fst (enumerate 0 rs))" by (simp only: map_map)
  also have "\<dots> = [1..<Suc (length rs)]"
    by (simp only: map_fst_enumerate map_Suc_upt) simp
  finally show ?thesis .
qed

lemma map_rating_id_assign_ranks [simp]:
  "map rating_id (assign_ranks rs) = map rating_id rs"
proof -
  have "map rating_id (assign_ranks rs) = map (rating_id \<circ> snd) (enumerate 0 rs)"
    by (simp add: assign_ranks_def case_prod_unfold comp_def)
  also have "\<dots> = map rating_id (map snd (enumerate 0 rs))" by (simp only: map_map)
  finally show ?thesis by (simp only: map_snd_enumerate)
qed

lemma schema_valid_rank [simp]: "schema_valid (r\<lparr>rankInGroup := k\<rparr>) = schema_valid r"
  by (simp add: schema_valid_def)

lemma valid_assign_ranks:
  "list_all schema_valid (assign_ranks rs) = list_all schema_valid rs"
proof
  assume a: "list_all schema_valid (assign_ranks rs)"
  show "list_all schema_valid rs"
    unfolding list_all_length
  proof (intro allI impI)
    fix i assume i: "i < length rs"
    with a have "schema_valid (assign_ranks rs ! i)" by (simp add: list_all_length)
    with i show "schema_valid (rs ! i)" by (simp add: nth_assign_ranks)
  qed
next
  assume a: "list_all schema_valid rs"
  show "list_all schema_valid (assign_ranks rs)"
    unfolding list_all_length
  proof (intro allI impI)
    fix i assume "i < length (assign_ranks rs)"
    then have i: "i < length rs" by simp
    with a have "schema_valid (rs ! i)" by (simp add: list_all_length)
    with i show "schema_valid (assign_ranks rs ! i)" by (simp add: nth_assign_ranks)
  qed
qed

lemma set_find_group_sorted: "set (find_group_sorted g rs) = {r \<in> set rs. r_group r = g}"
  by (auto simp: find_group_sorted_def)

lemma sorted_desc_find_group_sorted:
  "sorted_wrt (\<ge>) (map totalScore (find_group_sorted g rs))"
proof -
  have "sorted (map (\<lambda>r. - totalScore r) (find_group_sorted g rs))"
    unfolding find_group_sorted_def by (rule sorted_sort_key)
  then show ?thesis by (simp add: sorted_wrt_map)
qed

lemma ties_find_group_sorted:
  "filter (\<lambda>r. totalScore r = k) (find_group_sorted g rs) =
   filter (\<lambda>r. totalScore r = k) (filter (\<lambda>r. r_group r = g) rs)"
  using sort_key_stable [of "\<lambda>r. - totalScore r" "- k" "filter (\<lambda>r. r_group r = g) rs"]
  by (simp add: find_group_sorted_def)

lemma mset_find_group_sorted:
  "mset (find_group_sorted g rs) = mset (filter (\<lambda>r. r_group r = g) rs)"
  by (simp add: find_group_sorted_def)

lemma length_find_group_sorted:
  "length (find_group_sorted g rs) = length (filter (\<lambda>r. r_group r = g) rs)"
  by (simp add: find_group_sorted_def)

lemma fst_resolve:
  "fst (resolve now g rs) =
     (if list_all schema_valid (find_group_sorted g rs)
      then Inr (map (pre_save now) (assign_ranks (find_group_sorted g rs)))
      else Inl ServerError)"
  by (simp add: resolve_def Let_def valid_assign_ranks)

lemma snd_resolve: "snd (resolve now g rs) = save_all now (assign_ranks (find_group_sorted g rs)) rs"
  by (simp add: resolve_def Let_def)

lemma map_rating_id_write:
  "rating_id d \<in> set (map rating_id rs) \<Longrightarrow> map rating_id (write_rating d rs) = map rating_id rs"
  by (auto simp: write_rating_def)

lemma findById_None: "(findById i ds = None) = (i \<notin> set (map rating_id ds))"
  by (auto simp: findById_def find_None_iff)

lemma findById_Cons: "findById i (d # ds) = (if rating_id d = i then Some d else findById i ds)"
  by (simp add: findById_def)

lemma findById_Some_id: "findById i ds = Some d \<Longrightarrow> rating_id d = i \<and> d \<in> set ds"
  unfolding findById_def by (induction ds) (auto split: if_splits)

lemma findById_member:
  "distinct (map rating_id ds) \<Longrightarrow> d \<in> set ds \<Longrightarrow> findById (rating_id d) ds = Some d"
  by (induction ds) (auto simp: findById_Cons)

lemma findById_map:
  "(\<And>r. r \<in> set rs \<Longrightarrow> rating_id (F r) = rating_id r) \<Longrightarrow>
   findById i (map F rs) = map_option F (findById i rs)"
  by (induction rs) (auto simp: findById_Cons findById_def)

lemma fold_write_rating:
  "distinct (map rating_id ds) \<Longrightarrow> set (map rating_id ds) \<subseteq> set (map rating_id rs) \<Longrightarrow>
   fold write_rating ds rs =
   map (\<lambda>r. case findById (rating_id r) ds of None \<Rightarrow> r | Some d \<Rightarrow> d) rs"
proof (induction ds arbitrary: rs)
  case Nil
  then show ?case by (simp add: findById_def)
next
  case (Cons d ds)
  let ?rs = "write_rating d rs"
  have in_rs: "rating_id d \<in> set (map rating_id rs)" using Cons.prems(2) by simp
  have ids: "map rating_id ?rs = map rating_id rs" using in_rs by (rule map_rating_id_write)
  have w: "?rs = map (\<lambda>x. if rating_id x = rating_id d then d else x) rs"
    using in_rs by (simp add: write_rating_def)
  have fresh: "findById (rating_id d) ds = None"
    using Cons.prems(1) by (simp add: findById_None)
  have "fold write_rating (d # ds) rs = fold write_rating ds ?rs" by simp
  also have "\<dots> = map (\<lambda>r. case findById (rating_id r) ds of None \<Rightarrow> r | Some d \<Rightarrow> d) ?rs"
    using Cons.prems ids by (intro Cons.IH) auto
  also have "\<dots> = map (\<lambda>r. case findById (rating_id r) (d # ds) of None \<Rightarrow> r | Some d \<Rightarrow> d) rs"
    unfolding w by (simp add: findById_Cons fresh)
  finally show ?case .
qed

text \<open>The documents the pass writes: the hooked ones among those the validators accept.\<close>

lemma save_all_fold:
  "save_all now docs rs = fold write_rating (map (pre_save now) (filter schema_valid docs)) rs"
  unfolding save_all_def
  by (induction docs arbitrary: rs) (simp_all add: save_rating_def)

lemma map_rating_id_pre_save [simp]: "map rating_id (map (pre_save now) ds) = map rating_id ds"
  by (simp add: comp_def)

lemma distinct_ids_sorted:
  assumes "distinct (map rating_id rs)"
  shows "distinct (map rating_id (find_group_sorted g rs))"
proof -
  have "mset (map rating_id (find_group_sorted g rs)) =
        mset (map rating_id (filter (\<lambda>r. r_group r = g) rs))"
    by (simp add: find_group_sorted_def)
  moreover have "distinct (map rating_id (filter (\<lambda>r. r_group r = g) rs))"
    using assms by (rule distinct_map_filter)
  ultimately show ?thesis by (metis mset_eq_imp_distinct_iff)
qed

lemma distinct_ids_written:
  assumes "distinct (map rating_id rs)"
  shows "distinct (map rating_id
           (map (pre_save now) (filter schema_valid (assign_ranks (find_group_sorted g rs)))))"
proof -
  have "distinct (map rating_id (assign_ranks (find_group_sorted g rs)))"
    using distinct_ids_sorted [OF assms, of g] by (simp only: map_rating_id_assign_ranks)
  then have "distinct (map rating_id (filter schema_valid (assign_ranks (find_group_sorted g rs))))"
    by (rule distinct_map_filter)
  then show ?thesis by (simp only: map_rating_id_pre_save)
qed

lemma ids_written:
  "set (map rating_id
         (map (pre_save now) (filter schema_valid (assign_ranks (find_group_sorted g rs)))))
   \<subseteq> rating_id ` {r \<in> set rs. r_group r = g}"
proof -
  have "set (map rating_id (filter schema_valid (assign_ranks (find_group_sorted g rs))))
        \<subseteq> set (map rating_id (assign_ranks (find_group_sorted g rs)))"
    unfolding set_map by (rule image_mono) (rule filter_is_subset)
  also have "\<dots> = rating_id ` {r \<in> set rs. r_group r = g}"
    by (simp only: map_rating_id_assign_ranks set_map set_find_group_sorted)
  finally show ?thesis by (simp only: map_rating_id_pre_save)
qed

lemma resolve_stored:
  assumes "distinct (map rating_id rs)"
  shows "snd (resolve now g rs) =
     map (\<lambda>r. case findById (rating_id r)
                     (map (pre_save now)
                        (filter schema_valid (assign_ranks (find_group_sorted g rs)))) of
                 None \<Rightarrow> r | Some d \<Rightarrow> d) rs"
proof -
  let ?ds = "map (pre_save now) (filter schema_valid (assign_ranks (find_group_sorted g rs)))"
  have s: "set (map rating_id ?ds) \<subseteq> set (map rating_id rs)"
    using ids_written [of now g rs] by auto
  show ?thesis
    unfolding snd_resolve save_all_fold
    using distinct_ids_written [OF assms] s by (rule fold_write_rating)
qed

lemma resolve_stored_row:
  assumes d: "distinct (map rating_id rs)" and r: "r \<in> set rs"
  shows "findById (rating_id r) (snd (resolve now g rs)) =
         Some (case findById (rating_id r)
                      (map (pre_save now)
                         (filter schema_valid (assign_ranks (find_group_sorted g rs)))) of
                 None \<Rightarrow> r | Some d \<Rightarrow> d)"
proof -
  let ?F = "\<lambda>r. case findById (rating_id r)
                      (map (pre_save now)
                         (filter schema_valid (assign_ranks (find_group_sorted g rs)))) of
                 None \<Rightarrow> r | Some d \<Rightarrow> d"
  have keep: "rating_id (?F x) = rating_id x" for x
    by (auto split: option.splits dest: findById_Some_id)
  have "findById (rating_id r) (map ?F rs) = map_option ?F (findById (rating_id r) rs)"
    by (rule findById_map) (rule keep)
  also have "\<dots> = Some (?F r)" using findById_member [OF d r] by simp
  finally show ?thesis by (simp only: resolve_stored [OF d])
qed

text \<open>
  The row at position \<^verbatim>\<open>i\<close> of the query result after the pass: saved with rank
  \<^verbatim>\<open>i + 1\<close> when the validators accept it, as it was otherwise.
\<close>

lemma resolve_at:
  assumes d: "distinct (map rating_id rs)" and i: "i < length (find_group_sorted g rs)"
  shows "findById (rating_id (find_group_sorted g rs ! i)) (snd (resolve now g rs)) =
           Some (if schema_valid (find_group_sorted g rs ! i)
                 then pre_save now ((find_group_sorted g rs ! i)\<lparr>rankInGroup := Suc i\<rparr>)
                 else find_group_sorted g rs ! i)"
proof -
  let ?loaded = "find_group_sorted g rs"
  let ?ranked = "assign_ranks ?loaded"
  let ?ds = "map (pre_save now) (filter schema_valid ?ranked)"
  let ?r = "?loaded ! i"
  have "?r \<in> set ?loaded" using i by simp
  then have r: "?r \<in> set rs" by (simp add: set_find_group_sorted)
  have ri: "?ranked ! i = ?r\<lparr>rankInGroup := Suc i\<rparr>" using i by (rule nth_assign_ranks)
  have dl: "distinct (map rating_id ?loaded)" using d by (rule distinct_ids_sorted)
  show ?thesis
  proof (cases "schema_valid ?r")
    case True
    have "?ranked ! i \<in> set ?ranked" using i by simp
    with True ri have "?r\<lparr>rankInGroup := Suc i\<rparr> \<in> set (filter schema_valid ?ranked)"
      by simp
    then have "pre_save now (?r\<lparr>rankInGroup := Suc i\<rparr>) \<in> set ?ds" by simp
    from findById_member [OF distinct_ids_written [OF d] this]
    have "findById (rating_id ?r) ?ds = Some (pre_save now (?r\<lparr>rankInGroup := Suc i\<rparr>))"
      by simp
    with resolve_stored_row [OF d r, of now g] True show ?thesis by simp
  next
    case False
    have "rating_id ?r \<notin> set (map rating_id (filter schema_valid ?ranked))"
    proof
      assume "rating_id ?r \<in> set (map rating_id (filter schema_valid ?ranked))"
      then obtain y where y: "y \<in> set ?ranked" "schema_valid y" "rating_id y = rating_id ?r"
        by auto
      from y(1) obtain j where j: "j < length ?loaded" "?ranked ! j = y"
        by (auto simp: in_set_conv_nth)
      then have yj: "y = (?loaded ! j)\<lparr>rankInGroup := Suc j\<rparr>"
        by (simp add: nth_assign_ranks)
      with y(3) have same: "map rating_id ?loaded ! j = map rating_id ?loaded ! i"
        using i j(1) by simp
      have "(map rating_id ?loaded ! j = map rating_id ?loaded ! i) = (j = i)"
        using dl by (rule nth_eq_iff_index_eq) (simp_all add: i j(1))
      with same have "j = i" by blast
      with yj y(2) False show False by simp
    qed
    then have "findById (rating_id ?r) ?ds = None"
      by (simp only: findById_None map_rating_id_pre_save) simp
    with resolve_stored_row [OF d r, of now g] False show ?thesis by simp
  qed
qed



text \<open>
  C4, as amended. For a group with N Rating rows (row identifiers unique), the ranking pass
  takes the rows in the order of the query, total score as loaded descending and rows of
  equal total score in their order of insertion, each row once, and gives the row at
  position i the rank i, so the documents it holds carry the ranks 1, 2, ..., N (dense: no
  gap, no repeat). It answers with these documents, hooked, when every row passes the
  schema's validators, and with a 500 otherwise. In the collection a row that passes the
  validators is stored with its rank, a row that fails them stays as it was; when all rows
  pass, the stored ranks read in query order are 1, 2, ..., N.
\<close>

theorem resolve_dense_ranking:
  assumes "distinct (map rating_id rs)"
  shows
  "length (find_group_sorted g rs) = length (filter (\<lambda>r. r_group r = g) rs) \<and>
   mset (find_group_sorted g rs) = mset (filter (\<lambda>r. r_group r = g) rs) \<and>
   sorted_wrt (\<ge>) (map totalScore (find_group_sorted g rs)) \<and>
   (\<forall>k. filter (\<lambda>r. totalScore r = k) (find_group_sorted g rs) =
        filter (\<lambda>r. totalScore r = k) (filter (\<lambda>r. r_group r = g) rs)) \<and>
   map rating_id (assign_ranks (find_group_sorted g rs)) =
     map rating_id (find_group_sorted g rs) \<and>
   map rankInGroup (map (pre_save now) (assign_ranks (find_group_sorted g rs))) =
     [1..<Suc (length (filter (\<lambda>r. r_group r = g) rs))] \<and>
   fst (resolve now g rs) =
     (if list_all schema_valid (find_group_sorted g rs)
      then Inr (map (pre_save now) (assign_ranks (find_group_sorted g rs)))
      else Inl ServerError) \<and>
   (\<forall>i<length (find_group_sorted g rs).
      findById (rating_id (find_group_sorted g rs ! i)) (snd (resolve now g rs)) =
        Some (if schema_valid (find_group_sorted g rs ! i)
              then pre_save now ((find_group_sorted g rs ! i)\<lparr>rankInGroup := Suc i\<rparr>)
              else find_group_sorted g rs ! i)) \<and>
   (list_all schema_valid (find_group_sorted g rs) \<longrightarrow>
      map (\<lambda>r. map_option rankInGroup (findById (rating_id r) (snd (resolve now g rs))))
        (find_group_sorted g rs) =
      map Some [1..<Suc (length (filter (\<lambda>r. r_group r = g) rs))])"
proof -
  let ?loaded = "find_group_sorted g rs"
  let ?n = "length (filter (\<lambda>r. r_group r = g) rs)"
  have len: "length ?loaded = ?n" by (rule length_find_group_sorted)
  have ranks: "map rankInGroup (map (pre_save now) (assign_ranks ?loaded)) = [1..<Suc ?n]"
    using map_rankInGroup_assign_ranks [of ?loaded] by (simp add: len comp_def)
  have at: "\<forall>i<length ?loaded.
      findById (rating_id (?loaded ! i)) (snd (resolve now g rs)) =
        Some (if schema_valid (?loaded ! i)
              then pre_save now ((?loaded ! i)\<lparr>rankInGroup := Suc i\<rparr>)
              else ?loaded ! i)"
    using resolve_at [OF assms] by blast
  have stored: "map (\<lambda>r. map_option rankInGroup (findById (rating_id r) (snd (resolve now g rs))))
        ?loaded = map Some [1..<Suc ?n]" if valid: "list_all schema_valid ?loaded"
  proof (rule nth_equalityI)
    show "length (map (\<lambda>r. map_option rankInGroup
            (findById (rating_id r) (snd (resolve now g rs)))) ?loaded) =
          length (map Some [1..<Suc ?n])"
      by (simp only: length_map length_upt len diff_Suc_1)
  next
    fix i
    assume "i < length (map (\<lambda>r. map_option rankInGroup
            (findById (rating_id r) (snd (resolve now g rs)))) ?loaded)"
    then have i: "i < length ?loaded" by simp
    with valid have "schema_valid (?loaded ! i)" by (simp add: list_all_length)
    with at i have found: "findById (rating_id (?loaded ! i)) (snd (resolve now g rs)) =
        Some (pre_save now ((?loaded ! i)\<lparr>rankInGroup := Suc i\<rparr>))"
      by simp
    have in_range: "i < length [1..<Suc ?n]"
      using i len by (simp only: length_upt diff_Suc_1)
    have "[1..<Suc ?n] ! i = 1 + i" by (rule nth_upt) (use i len in simp)
    then have right: "map Some [1..<Suc ?n] ! i = Some (Suc i)"
      by (simp only: nth_map [OF in_range] plus_1_eq_Suc)
    have "map (\<lambda>r. map_option rankInGroup
            (findById (rating_id r) (snd (resolve now g rs)))) ?loaded ! i =
          map_option rankInGroup (findById (rating_id (?loaded ! i)) (snd (resolve now g rs)))"
      using i by (rule nth_map)
    also have "\<dots> = Some (Suc i)" unfolding found by simp
    finally show "map (\<lambda>r. map_option rankInGroup
            (findById (rating_id r) (snd (resolve now g rs)))) ?loaded ! i =
          map Some [1..<Suc ?n] ! i"
      unfolding right .
  qed
  show ?thesis
    using len mset_find_group_sorted [of g rs] sorted_desc_find_group_sorted [of g rs]
      ties_find_group_sorted [of _ g rs] map_rating_id_assign_ranks [of ?loaded]
      ranks fst_resolve [of now g rs] at stored
    by blast
qed

text \<open>
  The example of the claim: total scores 8, 8, 5 inserted as A, B, C (identifiers 1, 2, 3)
  are ranked A = 1, B = 2, C = 3, in the answer and in the collection.
\<close>

theorem resolve_three_rows:
  "distinct (map rating_id three_rows) \<and> list_all schema_valid three_rows \<and>
   map totalScore three_rows = [8, 8, 5] \<and>
   find_group_sorted 1 three_rows = three_rows \<and>
   map_sum id (map (\<lambda>d. (rating_id d, rankInGroup d))) (fst (resolve 0 1 three_rows)) =
     Inr [(1, 1), (2, 2), (3, 3)] \<and>
   map (\<lambda>r. map_option rankInGroup (findById (rating_id r) (snd (resolve 0 1 three_rows))))
     three_rows = [Some 1, Some 2, Some 3]"
proof -
  have d: "distinct (map rating_id three_rows)"
    by (simp add: three_rows_def row_A_def row_B_def row_C_def new_rating_def)
  have valid: "list_all schema_valid three_rows"
    by (simp add: three_rows_def row_A_def row_B_def row_C_def new_rating_def
        schema_valid_def in_scale_def)
  have sorted_rows: "find_group_sorted 1 three_rows = three_rows"
    by (simp add: find_group_sorted_def three_rows_def row_A_def row_B_def row_C_def
        new_rating_def)
  have n: "length (filter (\<lambda>r. r_group r = 1) three_rows) = 3"
    by (simp add: three_rows_def row_A_def row_B_def row_C_def new_rating_def)
  have upt: "[1..<Suc 3] = [1, 2, 3]" by (simp add: upt_rec)
  note inst = resolve_dense_ranking [OF d, of 1 0, unfolded sorted_rows n upt]
  from inst valid have answer: "fst (resolve 0 1 three_rows) =
      Inr (map (pre_save 0) (assign_ranks three_rows))"
    by simp
  from inst have ranks: "map rankInGroup (map (pre_save 0) (assign_ranks three_rows)) = [1, 2, 3]"
    by blast
  from inst have "map rating_id (assign_ranks three_rows) = map rating_id three_rows"
    by blast
  then have ids: "map rating_id (map (pre_save 0) (assign_ranks three_rows)) = [1, 2, 3]"
    by (simp add: comp_def three_rows_def row_A_def row_B_def row_C_def new_rating_def)
  from inst valid have stored:
    "map (\<lambda>r. map_option rankInGroup (findById (rating_id r) (snd (resolve 0 1 three_rows))))
       three_rows = map Some [1, 2, 3]"
    by blast
  have scores: "map totalScore three_rows = [8, 8, 5]"
    by (simp add: three_rows_def row_A_def row_B_def row_C_def new_rating_def)
  have pairs: "map (\<lambda>d. (rating_id d, rankInGroup d)) ds =
      zip (map rating_id ds) (map rankInGroup ds)" for ds :: "rating list"
    by (induction ds) auto
  have "map (\<lambda>d. (rating_id d, rankInGroup d)) (map (pre_save 0) (assign_ranks three_rows)) =
      [(1, 1), (2, 2), (3, 3)]"
    unfolding pairs ranks ids by simp
  with d valid scores sorted_rows stored show ?thesis unfolding answer by simp
qed

lemma overbooked_stored:
  "save_rating 3 overbooked_put [row_A, new_rating 2 12 1 0] = Some [row_A, overbooked]"
  by (simp add: save_rating_def write_rating_def overbooked_def overbooked_put_def row_A_def
      new_rating_def schema_valid_def in_scale_def)

lemma overbooked_fields:
  "overbooked = (new_rating 2 12 1 3)\<lparr>attendedClasses := 5, totalClasses := 2, attendance := 25\<rparr>"
  by (simp add: overbooked_def overbooked_put_def new_rating_def pre_save_def Let_def
      Math_round_def)

text \<open>
  C4 as stated fails in two ways. The order is that of the total scores the query loaded,
  and the save of the same pass recomputes them: with a row whose stored total is stale
  (4, to become 7) next to a row of total 5, the pass answers and stores rank 1 with total
  score 5 and rank 2 with total score 7. And a row can fail the validators: a save with
  \<^verbatim>\<open>attendedClasses = 5\<close> and \<^verbatim>\<open>totalClasses = 2\<close> is accepted and the hook stores
  \<^verbatim>\<open>attendance = 25\<close>; from then on the pass answers 500 and that row keeps its old rank,
  so the stored ranks of the group are 1 and 0.
\<close>

theorem resolve_ranking_breaks:
  "list_all schema_valid stale_pair \<and>
   map (\<lambda>d. (rating_id d, totalScore d)) stale_pair = [(1, 4), (3, 5)] \<and>
   map_sum id (map (\<lambda>d. (rating_id d, rankInGroup d, totalScore d)))
     (fst (resolve 2 1 stale_pair)) = Inr [(3, 1, 5), (1, 2, 7)] \<and>
   map (\<lambda>d. (rating_id d, rankInGroup d, totalScore d)) (snd (resolve 2 1 stale_pair)) =
     [(1, 2, 7), (3, 1, 5)] \<and>
   save_rating 3 overbooked_put [row_A, new_rating 2 12 1 0] = Some [row_A, overbooked] \<and>
   attendance overbooked = 25 \<and>
   fst (resolve 4 1 [row_A, overbooked]) = Inl ServerError \<and>
   map (\<lambda>d. (rating_id d, rankInGroup d)) (snd (resolve 4 1 [row_A, overbooked])) =
     [(1, 1), (2, 0)]"
proof -
  have a: "list_all schema_valid stale_pair"
    "map (\<lambda>d. (rating_id d, totalScore d)) stale_pair = [(1, 4), (3, 5)]"
    by (simp_all add: stale_pair_def stale_row_def row_C_def new_rating_def schema_valid_def
        in_scale_def)
  have b: "resolve 2 1 stale_pair =
      (Inr [row_C\<lparr>rankInGroup := 1, lastUpdated := 2\<rparr>,
            stale_row\<lparr>totalScore := 7, rankInGroup := 2, lastUpdated := 2\<rparr>],
       [stale_row\<lparr>totalScore := 7, rankInGroup := 2, lastUpdated := 2\<rparr>,
        row_C\<lparr>rankInGroup := 1, lastUpdated := 2\<rparr>])"
    by (simp add: resolve_def find_group_sorted_def assign_ranks_def stale_pair_def
        stale_row_def row_C_def new_rating_def save_all_def save_rating_def schema_valid_def
        in_scale_def write_rating_def pre_save_def Let_def Math_round_def)
  have c: "resolve 4 1 [row_A, overbooked] =
      (Inl ServerError, [row_A\<lparr>rankInGroup := 1, lastUpdated := 4\<rparr>, overbooked])"
    unfolding overbooked_fields
    by (simp add: resolve_def find_group_sorted_def assign_ranks_def row_A_def new_rating_def
        save_all_def save_rating_def schema_valid_def in_scale_def write_rating_def
        pre_save_def Let_def Math_round_def)
  show ?thesis
    unfolding b c using a overbooked_stored
    by (simp add: overbooked_fields stale_row_def row_A_def row_C_def new_rating_def)
qed

section \<open>What the GET handlers write\<close>









section \<open>The reward unlock gate\<close>

lemma findUser_Some: "findUser i us = Some u \<Longrightarrow> user_id u = i \<and> u \<in> set us"
  unfolding findUser_def by (induction us) (auto split: if_splits)

lemma auth_Inr: "(auth us i = Inr u) = (findUser i us = Some u \<and> u_isActive u)"
  by (auto simp: auth_def split: option.splits)

lemma findReward_Some: "findReward i rws = Some r \<Longrightarrow> reward_id r = i \<and> r \<in> set rws"
  unfolding findReward_def by (induction rws) (auto split: if_splits)

lemma find_SomeD: "find P xs = Some x \<Longrightarrow> P x \<and> x \<in> set xs"
  by (induction xs) (auto split: if_splits)

lemma find_previous:
  assumes "distinct (map order rws)"
  shows "(case find (\<lambda>p. order p = k \<and> isActive p) rws of None \<Rightarrow> False | Some p \<Rightarrow> \<not> claimed_by i p) =
         (\<exists>p\<in>set rws. order p = k \<and> isActive p \<and> \<not> claimed_by i p)"
proof (cases "find (\<lambda>p. order p = k \<and> isActive p) rws")
  case None
  then have "\<not> (order p = k \<and> isActive p)" if "p \<in> set rws" for p
    using that unfolding find_None_iff by blast
  then have "\<not> (\<exists>p\<in>set rws. order p = k \<and> isActive p \<and> \<not> claimed_by i p)"
    by blast
  with None show ?thesis by simp
next
  case (Some p)
  from find_SomeD [OF Some] have p: "p \<in> set rws" "order p = k" "isActive p"
    by simp_all
  have inj: "inj_on order (set rws)" using assms by (simp add: distinct_map)
  have same: "q = p" if "q \<in> set rws" "order q = k" for q
    using inj_onD [OF inj, of q p] p that by simp
  have "(\<exists>q\<in>set rws. order q = k \<and> isActive q \<and> \<not> claimed_by i q) = (\<not> claimed_by i p)"
    using p same by blast
  with Some show ?thesis by simp
qed

lemma claim_plan_found:
  assumes "auth (users st) requester = Inr u" and "authorize [Student] u"
    and "findReward rewardId (rewards st) = Some r"
  shows "claim_plan now st requester rewardId =
          (if points u < pointsRequired r then Inl InsufficientPoints
           else if claimed_by (user_id u) r then Inl AlreadyClaimed
           else if (case find (\<lambda>p. order p = order r - 1 \<and> isActive p) (rewards st) of
                      None \<Rightarrow> False | Some p \<Rightarrow> \<not> claimed_by (user_id u) p)
                then Inl PreviousRewardRequired
           else Inr [IncPoints (user_id u) (- pointsRequired r),
                     SaveReward (r\<lparr>claimedBy := claimedBy r @
                       [\<lparr>c_student = user_id u, claimedAt = now, status = Pending\<rparr>]\<rparr>)])"
  using assms by (simp add: claim_plan_def Let_def)

text \<open>
  C5, as amended. For an authenticated student and a catalogue with unique \<^verbatim>\<open>order\<close>
  values, the claim handler answers NotFound when no reward has the identifier; for an
  active reward it checks, in this order and with the first failure winning: the balance
  against \<^verbatim>\<open>pointsRequired\<close> (InsufficientPoints), an existing claim of the student on
  the reward (AlreadyClaimed), and an unclaimed active reward of \<^verbatim>\<open>order - 1\<close>
  (PreviousRewardRequired); otherwise it debits \<^verbatim>\<open>pointsRequired\<close> and saves the reward
  with a pending claim appended.
\<close>

theorem claim_checks_in_order:
  assumes "auth (users st) requester = Inr u" and "authorize [Student] u"
    and "distinct (map order (rewards st))"
  shows
    "(findReward rewardId (rewards st) = None \<longrightarrow>
        claim_plan now st requester rewardId = Inl (NotFound ''Reward not found'')) \<and>
     (\<forall>r. findReward rewardId (rewards st) = Some r \<and> isActive r \<longrightarrow>
        claim_plan now st requester rewardId =
          (if points u < pointsRequired r then Inl InsufficientPoints
           else if claimed_by (user_id u) r then Inl AlreadyClaimed
           else if \<exists>p\<in>set (rewards st). order p = order r - 1 \<and> isActive p \<and>
                     \<not> claimed_by (user_id u) p
                then Inl PreviousRewardRequired
           else Inr [IncPoints (user_id u) (- pointsRequired r),
                     SaveReward (r\<lparr>claimedBy := claimedBy r @
                       [\<lparr>c_student = user_id u, claimedAt = now, status = Pending\<rparr>]\<rparr>)]))"
proof (intro conjI impI allI)
  assume "findReward rewardId (rewards st) = None"
  with assms(1,2) show "claim_plan now st requester rewardId = Inl (NotFound ''Reward not found'')"
    by (simp add: claim_plan_def)
next
  fix r assume "findReward rewardId (rewards st) = Some r \<and> isActive r"
  then have r: "findReward rewardId (rewards st) = Some r" by simp
  show "claim_plan now st requester rewardId =
          (if points u < pointsRequired r then Inl InsufficientPoints
           else if claimed_by (user_id u) r then Inl AlreadyClaimed
           else if \<exists>p\<in>set (rewards st). order p = order r - 1 \<and> isActive p \<and>
                     \<not> claimed_by (user_id u) p
                then Inl PreviousRewardRequired
           else Inr [IncPoints (user_id u) (- pointsRequired r),
                     SaveReward (r\<lparr>claimedBy := claimedBy r @
                       [\<lparr>c_student = user_id u, claimedAt = now, status = Pending\<rparr>]\<rparr>)])"
    unfolding claim_plan_found [OF assms(1,2) r]
      find_previous [OF assms(3), where i = "user_id u" and k = "order r - 1"]
    by (rule refl)
qed

lemma shop_facts:
  "auth (users shop) 5 = Inr buyer" "authorize [Student] buyer"
  "distinct (map order (rewards shop))"
  "findReward 11 (rewards shop) = Some pencil" "findReward 12 (rewards shop) = Some book"
  "findReward 19 (rewards shop) = None"
  by (simp_all add: shop_def buyer_def pencil_def book_def laptop_def auth_def findUser_def
      authorize_def findReward_def)

text \<open>
  The chain of the specification: an unknown reward is not found, the second reward cannot
  be claimed before the first, the first can.
\<close>

theorem claim_chain_example:
  "auth (users shop) 5 = Inr buyer \<and> authorize [Student] buyer \<and>
   distinct (map order (rewards shop)) \<and>
   findReward 19 (rewards shop) = None \<and>
   claim_plan 0 shop 5 19 = Inl (NotFound ''Reward not found'') \<and>
   findReward 12 (rewards shop) = Some book \<and> isActive book \<and>
   claim_plan 0 shop 5 12 = Inl PreviousRewardRequired \<and>
   findReward 11 (rewards shop) = Some pencil \<and> isActive pencil \<and>
   claim_plan 0 shop 5 11 =
     Inr [IncPoints 5 (- 10),
          SaveReward (pencil\<lparr>claimedBy := [\<lparr>c_student = 5, claimedAt = 0, status = Pending\<rparr>]\<rparr>)]"
proof -
  note inst = claim_checks_in_order [OF shop_facts(1,2,3)]
  have a: "isActive book" "isActive pencil" by (simp_all add: book_def pencil_def)
  have none: "claim_plan 0 shop 5 19 = Inl (NotFound ''Reward not found'')"
    using inst [of 19 0] shop_facts(6) by simp
  have two: "claim_plan 0 shop 5 12 = Inl PreviousRewardRequired"
    using inst [of 12 0] shop_facts(5) a
    by (simp add: shop_def buyer_def pencil_def book_def laptop_def claimed_by_def)
  have one: "claim_plan 0 shop 5 11 =
     Inr [IncPoints 5 (- 10),
          SaveReward (pencil\<lparr>claimedBy := [\<lparr>c_student = 5, claimedAt = 0, status = Pending\<rparr>]\<rparr>)]"
    using inst [of 11 0] shop_facts(4) a
    by (simp add: shop_def buyer_def pencil_def book_def laptop_def claimed_by_def)
  show ?thesis
    unfolding none two one using shop_facts a by simp
qed

text \<open>
  C5 as stated fails where a reward is inactive. With the first reward retired, the reward of
  \<^verbatim>\<open>order - 1\<close> exists and the student holds no claim on it, yet the claim of the second
  reward goes through (the lookup of the previous reward asks for \<^verbatim>\<open>isActive: true\<close>);
  and the retired reward itself is claimed rather than not found.
\<close>

theorem claim_ignores_inactive:
  "findReward 11 (rewards shop_retired) = Some (pencil\<lparr>isActive := False\<rparr>) \<and>
   findReward 12 (rewards shop_retired) = Some book \<and>
   order (pencil\<lparr>isActive := False\<rparr>) = order book - 1 \<and>
   \<not> claimed_by 5 (pencil\<lparr>isActive := False\<rparr>) \<and>
   claim_plan 0 shop_retired 5 12 =
     Inr [IncPoints 5 (- 20),
          SaveReward (book\<lparr>claimedBy := [\<lparr>c_student = 5, claimedAt = 0, status = Pending\<rparr>]\<rparr>)] \<and>
   claim_plan 0 shop_retired 5 11 =
     Inr [IncPoints 5 (- 10),
          SaveReward (pencil\<lparr>isActive := False,
                             claimedBy := [\<lparr>c_student = 5, claimedAt = 0, status = Pending\<rparr>]\<rparr>)]"
  by (simp add: shop_retired_def buyer_def pencil_def book_def claim_plan_def auth_def
      findUser_def authorize_def findReward_def claimed_by_def Let_def)

section \<open>The debit and the claim record\<close>

lemma claim_plan_Inr:
  assumes "claim_plan now st requester rewardId = Inr ws"
    and "findReward rewardId (rewards st) = Some r"
  shows "\<exists>u. auth (users st) requester = Inr u \<and> pointsRequired r \<le> points u \<and>
           \<not> claimed_by requester r \<and>
           ws = [IncPoints requester (- pointsRequired r),
                 SaveReward (r\<lparr>claimedBy := claimedBy r @
                   [\<lparr>c_student = requester, claimedAt = now, status = Pending\<rparr>]\<rparr>)]"
proof (cases "auth (users st) requester")
  case (Inl e)
  with assms show ?thesis by (simp add: claim_plan_def)
next
  case (Inr u)
  then have id: "user_id u = requester"
    using findUser_Some [of requester "users st" u] by (simp add: auth_Inr)
  have student: "authorize [Student] u"
    using assms(1) Inr by (auto simp: claim_plan_def split: if_splits)
  from assms(1) show ?thesis
    unfolding claim_plan_found [OF Inr student assms(2)] using Inr id
    by (auto split: if_splits)
qed

lemma findUser_inc_points:
  "findUser j (inc_points i n us) =
     (if j = i then map_option (\<lambda>u. u\<lparr>points := points u + n\<rparr>) (findUser i us)
      else findUser j us)"
  by (induction us) (auto simp: findUser_def)

lemma findReward_write_reward:
  "findReward j (write_reward d rws) =
     (if findReward j rws = None then None
      else if j = reward_id d then Some d else findReward j rws)"
  by (induction rws) (auto simp: findReward_def write_reward_def)

lemma balance_inc_points:
  "findUser i (users st) = Some u \<Longrightarrow>
   balance i (st\<lparr>users := inc_points i n (users st)\<rparr>) = balance i st + n"
  by (simp add: balance_def findUser_inc_points)

text \<open>
  C6, as amended. A claim that passes the checks issues two writes, the debit first and the
  save of the reward second. With no write served nothing has changed; after the first write
  the balance is debited and the reward collection is unchanged (no claim record), and the
  handler answers 500 if the store fails there; with both writes served the balance is
  debited and the reward carries the claim. A claim record without the debit is in none of
  these states.
\<close>

theorem claim_debits_then_records:
  assumes "claim_plan now st requester rewardId = Inr ws"
    and "findReward rewardId (rewards st) = Some r"
  shows
    "ws = [IncPoints requester (- pointsRequired r),
           SaveReward (r\<lparr>claimedBy := claimedBy r @
             [\<lparr>c_student = requester, claimedAt = now, status = Pending\<rparr>]\<rparr>)] \<and>
     \<not> claimed_by requester r \<and>
     claim_reward_upto 0 now st requester rewardId = (Inl ServerError, st) \<and>
     fst (claim_reward_upto 1 now st requester rewardId) = Inl ServerError \<and>
     balance requester (snd (claim_reward_upto 1 now st requester rewardId)) =
       balance requester st - pointsRequired r \<and>
     rewards (snd (claim_reward_upto 1 now st requester rewardId)) = rewards st \<and>
     (\<forall>k\<ge>2. claim_reward_upto k now st requester rewardId =
                claim_reward now st requester rewardId) \<and>
     fst (claim_reward now st requester rewardId) = Inr () \<and>
     balance requester (snd (claim_reward now st requester rewardId)) =
       balance requester st - pointsRequired r \<and>
     findReward rewardId (rewards (snd (claim_reward now st requester rewardId))) =
       Some (r\<lparr>claimedBy := claimedBy r @
         [\<lparr>c_student = requester, claimedAt = now, status = Pending\<rparr>]\<rparr>)"
proof -
  let ?r' = "r\<lparr>claimedBy := claimedBy r @
         [\<lparr>c_student = requester, claimedAt = now, status = Pending\<rparr>]\<rparr>"
  from claim_plan_Inr [OF assms] obtain u where
    u: "auth (users st) requester = Inr u" and
    nc: "\<not> claimed_by requester r" and
    ws: "ws = [IncPoints requester (- pointsRequired r), SaveReward ?r']"
    by blast
  from u have fu: "findUser requester (users st) = Some u" by (simp add: auth_Inr)
  have rid: "reward_id r = rewardId" using assms(2) by (simp add: findReward_Some)
  have plan: "claim_plan now st requester rewardId =
      Inr [IncPoints requester (- pointsRequired r), SaveReward ?r']"
    using assms(1) ws by simp
  have s0: "claim_reward_upto 0 now st requester rewardId = (Inl ServerError, st)"
    by (simp add: claim_reward_upto_def plan)
  have s1: "claim_reward_upto 1 now st requester rewardId =
      (Inl ServerError, st\<lparr>users := inc_points requester (- pointsRequired r) (users st)\<rparr>)"
    by (simp add: claim_reward_upto_def plan)
  have s2: "claim_reward_upto k now st requester rewardId =
      claim_reward now st requester rewardId" if "2 \<le> k" for k
    using that by (simp add: claim_reward_upto_def claim_reward_def plan)
  have fin: "claim_reward now st requester rewardId =
      (Inr (), st\<lparr>users := inc_points requester (- pointsRequired r) (users st),
                    rewards := write_reward ?r' (rewards st)\<rparr>)"
    by (simp add: claim_reward_def plan)
  have c4: "fst (claim_reward_upto 1 now st requester rewardId) = Inl ServerError"
    unfolding s1 by simp
  have c5: "balance requester (snd (claim_reward_upto 1 now st requester rewardId)) =
      balance requester st - pointsRequired r"
    unfolding s1 using balance_inc_points [OF fu, of "- pointsRequired r"] by simp
  have c6: "rewards (snd (claim_reward_upto 1 now st requester rewardId)) = rewards st"
    unfolding s1 by simp
  have c7: "\<forall>k\<ge>2. claim_reward_upto k now st requester rewardId =
      claim_reward now st requester rewardId"
    using s2 by blast
  have c8: "fst (claim_reward now st requester rewardId) = Inr ()"
    by (simp add: fin)
  have c9: "balance requester (snd (claim_reward now st requester rewardId)) =
      balance requester st - pointsRequired r"
    using fu by (simp add: fin balance_def findUser_inc_points)
  have c10: "findReward rewardId (rewards (snd (claim_reward now st requester rewardId))) = Some ?r'"
    using assms(2) rid by (simp add: fin findReward_write_reward)
  from ws nc s0 c4 c5 c6 c7 c8 c9 c10 show ?thesis by blast
qed

text \<open>
  C6 as stated fails: when the store serves the debit and fails the save of the reward, the
  handler answers 500 and the student has paid 10 points for a reward with no claim record.
\<close>

theorem claim_debit_without_record:
  "claim_reward_upto 1 0 shop 5 11 = (Inl ServerError, shop\<lparr>users := [buyer\<lparr>points := 90\<rparr>]\<rparr>) \<and>
   balance 5 shop = 100 \<and>
   balance 5 (snd (claim_reward_upto 1 0 shop 5 11)) = 90 \<and>
   findReward 11 (rewards (snd (claim_reward_upto 1 0 shop 5 11))) = Some pencil \<and>
   claimedBy pencil = []"
proof -
  have plan: "claim_plan 0 shop 5 11 =
     Inr [IncPoints 5 (- 10),
          SaveReward (pencil\<lparr>claimedBy := [\<lparr>c_student = 5, claimedAt = 0, status = Pending\<rparr>]\<rparr>)]"
    by (simp add: shop_def buyer_def pencil_def book_def laptop_def claim_plan_def auth_def
        findUser_def authorize_def findReward_def claimed_by_def Let_def)
  have s1: "claim_reward_upto 1 0 shop 5 11 =
      (Inl ServerError, shop\<lparr>users := [buyer\<lparr>points := 90\<rparr>]\<rparr>)"
    unfolding claim_reward_upto_def plan by (simp add: shop_def buyer_def)
  show ?thesis
    unfolding s1
    by (simp add: balance_def findUser_def findReward_def shop_def buyer_def pencil_def)
qed

text \<open>The three states for the claim of the first reward.\<close>

theorem claim_debits_then_records_example:
  "claim_plan 0 shop 5 11 =
     Inr [IncPoints 5 (- 10),
          SaveReward (pencil\<lparr>claimedBy := [\<lparr>c_student = 5, claimedAt = 0, status = Pending\<rparr>]\<rparr>)] \<and>
   findReward 11 (rewards shop) = Some pencil \<and>
   balance 5 shop = 100 \<and>
   balance 5 (snd (claim_reward_upto 1 0 shop 5 11)) = 90 \<and>
   rewards (snd (claim_reward_upto 1 0 shop 5 11)) = rewards shop \<and>
   claim_reward_upto 2 0 shop 5 11 = claim_reward 0 shop 5 11 \<and>
   balance 5 (snd (claim_reward 0 shop 5 11)) = 90 \<and>
   findReward 11 (rewards (snd (claim_reward 0 shop 5 11))) =
     Some (pencil\<lparr>claimedBy := [\<lparr>c_student = 5, claimedAt = 0, status = Pending\<rparr>]\<rparr>)"
proof -
  have plan: "claim_plan 0 shop 5 11 =
     Inr [IncPoints 5 (- 10),
          SaveReward (pencil\<lparr>claimedBy := [\<lparr>c_student = 5, claimedAt = 0, status = Pending\<rparr>]\<rparr>)]"
    by (simp add: shop_def buyer_def pencil_def book_def laptop_def claim_plan_def auth_def
        findUser_def authorize_def findReward_def claimed_by_def Let_def)
  have b: "balance 5 shop = 100" "pointsRequired pencil = 10" "claimedBy pencil = []"
    by (simp_all add: balance_def findUser_def shop_def buyer_def pencil_def)
  note inst = claim_debits_then_records [OF plan shop_facts(4)]
  from inst have "\<forall>k\<ge>2. claim_reward_upto k 0 shop 5 11 = claim_reward 0 shop 5 11"
    by blast
  then have two: "claim_reward_upto 2 0 shop 5 11 = claim_reward 0 shop 5 11" by simp
  from inst plan shop_facts(4) two show ?thesis
    by (simp add: b)
qed

section \<open>The points ledger\<close>

lemma set_inc_points:
  "findUser i us = Some u \<Longrightarrow> set (inc_points i n us) \<subseteq> insert (u\<lparr>points := points u + n\<rparr>) (set us)"
  by (induction us) (auto simp: findUser_def)

lemma set_inc_points_None: "findUser i us = None \<Longrightarrow> inc_points i n us = us"
  by (induction us) (auto simp: findUser_def)

lemma set_write_user: "set (write_user d us) \<subseteq> insert d (set us)"
  by (auto simp: write_user_def)

lemma findTask_points: "findTask tid = Some task \<Longrightarrow> 0 < task_points task"
  by (auto simp: findTask_def bonusTasksData_def split: if_splits)

lemma points_credit_task: "points (credit_task now task pf nt u) = points u + task_points task"
  by (simp add: credit_task_def Let_def)

lemma complete_cases:
  "(\<exists>e. complete_bonus_task now us requester tid pf nt = (Inl e, us)) \<or>
   (\<exists>u task p n. auth us requester = Inr u \<and> findTask tid = Some task \<and>
      find (\<lambda>ct. taskId ct = tid) (completedBonusTasks u) = None \<and>
      snd (complete_bonus_task now us requester tid pf nt) =
        write_user (credit_task now task p n u) us)"
proof (cases "auth us requester")
  case (Inl e)
  then show ?thesis by (simp add: complete_bonus_task_def)
next
  case (Inr u)
  then have fu: "findUser requester us = Some u" by (simp add: auth_Inr)
  then have id: "user_id u = requester" by (simp add: findUser_Some)
  show ?thesis
  proof (cases "findTask tid")
    case None
    with Inr show ?thesis by (simp add: complete_bonus_task_def)
  next
    case (Some task)
    show ?thesis
    proof (cases "find (\<lambda>ct. taskId ct = tid) (completedBonusTasks u) = None")
      case True
      with Inr Some fu id show ?thesis
        by (auto simp: complete_bonus_task_def Let_def)
    next
      case False
      with Inr Some fu id show ?thesis
        by (auto simp: complete_bonus_task_def)
    qed
  qed
qed

lemma complete_keeps_nonneg:
  assumes "\<forall>u\<in>set us. 0 \<le> points u"
  shows "\<forall>u\<in>set (snd (complete_bonus_task now us requester tid pf nt)). 0 \<le> points u"
  using complete_cases [of now us requester tid pf nt]
proof (elim disjE exE conjE)
  fix e assume "complete_bonus_task now us requester tid pf nt = (Inl e, us)"
  with assms show ?thesis by simp
next
  fix u task p n
  assume a: "auth us requester = Inr u" and t: "findTask tid = Some task"
    and s: "snd (complete_bonus_task now us requester tid pf nt) =
        write_user (credit_task now task p n u) us"
  from a have "u \<in> set us" using findUser_Some [of requester us u] by (simp add: auth_Inr)
  with assms have "0 \<le> points u" by blast
  with findTask_points [OF t] have "0 \<le> points (credit_task now task p n u)"
    by (simp add: points_credit_task)
  with assms set_write_user [of "credit_task now task p n u" us] show ?thesis
    unfolding s by blast
qed

lemma claim_keeps_nonneg:
  assumes "\<forall>u\<in>set (users st). 0 \<le> points u"
  shows "\<forall>u\<in>set (users (snd (claim_reward now st requester rewardId))). 0 \<le> points u"
proof (cases "claim_plan now st requester rewardId")
  case (Inl e)
  with assms show ?thesis by (simp add: claim_reward_def)
next
  case (Inr ws)
  then obtain r where r: "findReward rewardId (rewards st) = Some r"
    by (cases "findReward rewardId (rewards st)")
       (auto simp: claim_plan_def split: sum.splits if_splits)
  from claim_plan_Inr [OF Inr r] obtain u where
    u: "auth (users st) requester = Inr u" and le: "pointsRequired r \<le> points u" and
    ws: "ws = [IncPoints requester (- pointsRequired r),
           SaveReward (r\<lparr>claimedBy := claimedBy r @
             [\<lparr>c_student = requester, claimedAt = now, status = Pending\<rparr>]\<rparr>)]"
    by blast
  from u have fu: "findUser requester (users st) = Some u" by (simp add: auth_Inr)
  have "users (snd (claim_reward now st requester rewardId)) =
        inc_points requester (- pointsRequired r) (users st)"
    by (simp add: claim_reward_def Inr ws)
  moreover have "0 \<le> points (u\<lparr>points := points u + - pointsRequired r\<rparr>)"
    using le by simp
  ultimately show ?thesis
    using assms set_inc_points [OF fu, of "- pointsRequired r"] by auto
qed

lemma ledger_step_keeps_nonneg:
  assumes "\<forall>u\<in>set (users st). 0 \<le> points u"
  shows "\<forall>u\<in>set (users (ledger_step op st)). 0 \<le> points u"
proof (cases op)
  case (Credit now requester tid pf nt)
  with complete_keeps_nonneg [OF assms, of now requester tid pf nt] show ?thesis by simp
next
  case (Debit now requester rewardId)
  with claim_keeps_nonneg [OF assms, of now requester rewardId] show ?thesis by simp
qed

lemma run_ledger_keeps_nonneg:
  "\<forall>u\<in>set (users st). 0 \<le> points u \<Longrightarrow>
   \<forall>u\<in>set (users (run_ledger ops st)). 0 \<le> points u"
  unfolding run_ledger_def
proof (induction ops arbitrary: st)
  case Nil
  then show ?case by simp
next
  case (Cons op ops)
  from ledger_step_keeps_nonneg [OF Cons.prems, of op]
  show ?case by (simp add: Cons.IH)
qed

lemma balance_nonneg:
  assumes "\<forall>u\<in>set (users st). 0 \<le> points u"
  shows "0 \<le> balance i st"
proof (cases "findUser i (users st)")
  case None
  then show ?thesis by (simp add: balance_def)
next
  case (Some u)
  with findUser_Some [OF Some] assms show ?thesis by (simp add: balance_def)
qed

lemma claim_insufficient:
  assumes "auth (users st) requester = Inr u" and "authorize [Student] u"
    and "findReward rewardId (rewards st) = Some r"
    and "balance requester st < pointsRequired r"
  shows "claim_reward now st requester rewardId = (Inl InsufficientPoints, st)"
proof -
  from assms(1) have "balance requester st = points u"
    by (simp add: balance_def auth_Inr)
  with assms(4) have "points u < pointsRequired r" by simp
  then show ?thesis
    by (simp add: claim_reward_def claim_plan_found [OF assms(1,2,3)])
qed

text \<open>
  C9. From a store in which no balance is negative, no sequence of bonus-task completions
  (credits) and reward claims (debits) reaches a negative balance, for any user; and a claim
  whose reward costs more than the student's balance is rejected with InsufficientPoints
  and leaves the store as it was.
\<close>

theorem balance_never_negative:
  assumes "\<forall>u\<in>set (users st). 0 \<le> points u"
  shows "(\<forall>u\<in>set (users (run_ledger ops st)). 0 \<le> points u) \<and>
         (\<forall>i. 0 \<le> balance i (run_ledger ops st)) \<and>
         (auth (users st) requester = Inr u \<and> authorize [Student] u \<and>
          findReward rewardId (rewards st) = Some r \<and>
          balance requester st < pointsRequired r \<longrightarrow>
            claim_reward now st requester rewardId = (Inl InsufficientPoints, st))"
proof -
  have inv: "\<forall>u\<in>set (users (run_ledger ops st)). 0 \<le> points u"
    using assms by (rule run_ledger_keeps_nonneg)
  then have "\<forall>i. 0 \<le> balance i (run_ledger ops st)"
    by (simp add: balance_nonneg)
  with inv claim_insufficient [of st requester u rewardId r now] show ?thesis by blast
qed

section \<open>Bonus tasks\<close>

lemma findUser_write_user:
  "findUser j (write_user d us) =
     (if findUser j us = None then None
      else if j = user_id d then Some d else findUser j us)"
  by (induction us) (auto simp: findUser_def write_user_def)

lemma credit_task_fields [simp]:
  "user_id (credit_task now task p n u) = user_id u"
  "u_isActive (credit_task now task p n u) = u_isActive u"
  "points (credit_task now task p n u) = points u + task_points task"
  "completedBonusTasks (credit_task now task p n u) =
     completedBonusTasks u @
       [\<lparr>taskId = task_id task, completedAt = now, ct_proof = p, ct_notes = n,
         pointsEarned = task_points task\<rparr>]"
  "achievements (credit_task now task p n u) =
     achievements u @ milestone now (Suc (length (completedBonusTasks u)))"
  "user_schema_valid (credit_task now task p n u) = user_schema_valid u"
  by (simp_all add: credit_task_def user_schema_valid_def Let_def)

lemma findTask_id: "findTask tid = Some task \<Longrightarrow> task_id task = tid"
  unfolding findTask_def by (auto dest: find_SomeD)

lemma complete_already:
  assumes "auth us requester = Inr u" and "findTask tid = Some task"
    and "find (\<lambda>ct. taskId ct = tid) (completedBonusTasks u) \<noteq> None"
  shows "complete_bonus_task now us requester tid pf nt = (Inl AlreadyCompleted, us)"
proof -
  from assms(1) have fu: "findUser requester us = Some u" by (simp add: auth_Inr)
  then have "user_id u = requester" by (simp add: findUser_Some)
  with assms fu show ?thesis by (simp add: complete_bonus_task_def)
qed

lemma complete_fresh:
  assumes "auth us requester = Inr u" and "findTask tid = Some task"
    and "find (\<lambda>ct. taskId ct = tid) (completedBonusTasks u) = None"
    and "user_schema_valid u"
  shows "snd (complete_bonus_task now us requester tid pf nt) =
           write_user (credit_task now task (case pf of None \<Rightarrow> [] | Some s \<Rightarrow> s)
                         (case nt of None \<Rightarrow> [] | Some s \<Rightarrow> s) u) us \<and>
         (\<exists>res. fst (complete_bonus_task now us requester tid pf nt) = Inr res)"
proof -
  from assms(1) have fu: "findUser requester us = Some u" by (simp add: auth_Inr)
  then have "user_id u = requester" by (simp add: findUser_Some)
  with assms fu show ?thesis by (simp add: complete_bonus_task_def Let_def)
qed

lemma complete_invalid:
  assumes "auth us requester = Inr u" and "findTask tid = Some task"
    and "find (\<lambda>ct. taskId ct = tid) (completedBonusTasks u) = None"
    and "\<not> user_schema_valid u"
  shows "complete_bonus_task now us requester tid pf nt = (Inl ServerError, us)"
proof -
  from assms(1) have fu: "findUser requester us = Some u" by (simp add: auth_Inr)
  then have "user_id u = requester" by (simp add: findUser_Some)
  with assms fu show ?thesis by (simp add: complete_bonus_task_def Let_def)
qed

lemma repeat_calls_unchanged:
  assumes "\<And>now pf nt. snd (complete_bonus_task now us requester tid pf nt) = us"
  shows "run_completions (map (\<lambda>(now, pf, nt). (now, requester, tid, pf, nt)) calls) us = us"
  unfolding run_completions_def
proof (induction calls)
  case Nil
  show ?case by simp
next
  case (Cons c calls)
  obtain now pf nt where c: "c = (now, pf, nt)" by (cases c)
  have "complete_step (now, requester, tid, pf, nt) us = us"
    using assms by (simp add: complete_step_def)
  with Cons.IH show ?case by (simp add: c)
qed

lemma repeat_calls_rejected:
  assumes "auth us requester = Inr u" and "findTask tid = Some task"
    and "find (\<lambda>ct. taskId ct = tid) (completedBonusTasks u) \<noteq> None"
  shows "run_completions (map (\<lambda>(now, pf, nt). (now, requester, tid, pf, nt)) calls) us = us"
  by (rule repeat_calls_unchanged) (simp add: complete_already [OF assms])

lemma repeat_calls_invalid:
  assumes "auth us requester = Inr u" and "findTask tid = Some task"
    and "find (\<lambda>ct. taskId ct = tid) (completedBonusTasks u) = None"
    and "\<not> user_schema_valid u"
  shows "run_completions (map (\<lambda>(now, pf, nt). (now, requester, tid, pf, nt)) calls) us = us"
  by (rule repeat_calls_unchanged) (simp add: complete_invalid [OF assms])

lemma find_append_last: "P x \<Longrightarrow> find P (xs @ [x]) \<noteq> None"
  by (induction xs) auto

lemma find_None_filter: "find P xs = None \<Longrightarrow> filter P xs = []"
  by (induction xs) (auto split: if_splits)

text \<open>
  C7, as amended. For an authenticated student and a task of the table: a completion call
  for a task already in the student's completed-task records is rejected with
  AlreadyCompleted and changes nothing; a call for a task not yet completed by a student
  whose user document fails a validator of the User schema is answered 500 and changes
  nothing. After any sequence of completion calls for that task the balance has grown by
  the task's points once, and the records hold exactly one entry for it, if the task was
  not completed before and the user document passes the validators; otherwise balance and
  records are as they were.
\<close>

theorem bonus_task_credited_once:
  assumes "auth us requester = Inr u" and "findTask tid = Some task"
  shows
    "(find (\<lambda>ct. taskId ct = tid) (completedBonusTasks u) \<noteq> None \<longrightarrow>
        complete_bonus_task now us requester tid pf nt = (Inl AlreadyCompleted, us)) \<and>
     (find (\<lambda>ct. taskId ct = tid) (completedBonusTasks u) = None \<and> \<not> user_schema_valid u \<longrightarrow>
        complete_bonus_task now us requester tid pf nt = (Inl ServerError, us)) \<and>
     (\<exists>u'. findUser requester
              (run_completions (map (\<lambda>(now, pf, nt). (now, requester, tid, pf, nt)) calls) us) =
            Some u' \<and>
        (if find (\<lambda>ct. taskId ct = tid) (completedBonusTasks u) \<noteq> None \<or> calls = [] \<or>
            \<not> user_schema_valid u
         then points u' = points u \<and> completedBonusTasks u' = completedBonusTasks u
         else points u' = points u + task_points task \<and>
              length (filter (\<lambda>ct. taskId ct = tid) (completedBonusTasks u')) = 1))"
proof (intro conjI impI)
  assume "find (\<lambda>ct. taskId ct = tid) (completedBonusTasks u) \<noteq> None"
  with assms show "complete_bonus_task now us requester tid pf nt = (Inl AlreadyCompleted, us)"
    by (rule complete_already)
next
  assume "find (\<lambda>ct. taskId ct = tid) (completedBonusTasks u) = None \<and> \<not> user_schema_valid u"
  with assms show "complete_bonus_task now us requester tid pf nt = (Inl ServerError, us)"
    by (simp add: complete_invalid)
next
  let ?reqs = "\<lambda>cs. map (\<lambda>(now, pf, nt). (now, requester, tid, pf, nt)) cs"
  from assms(1) have fu: "findUser requester us = Some u" and act: "u_isActive u"
    by (simp_all add: auth_Inr)
  from fu have id: "user_id u = requester" by (simp add: findUser_Some)
  show "\<exists>u'. findUser requester (run_completions (?reqs calls) us) = Some u' \<and>
        (if find (\<lambda>ct. taskId ct = tid) (completedBonusTasks u) \<noteq> None \<or> calls = [] \<or>
            \<not> user_schema_valid u
         then points u' = points u \<and> completedBonusTasks u' = completedBonusTasks u
         else points u' = points u + task_points task \<and>
              length (filter (\<lambda>ct. taskId ct = tid) (completedBonusTasks u')) = 1)"
  proof (cases "find (\<lambda>ct. taskId ct = tid) (completedBonusTasks u) \<noteq> None")
    case True
    with repeat_calls_rejected [OF assms True, of calls] fu show ?thesis by simp
  next
    case False
    then have fresh: "find (\<lambda>ct. taskId ct = tid) (completedBonusTasks u) = None" by simp
    show ?thesis
    proof (cases "user_schema_valid u")
      case False
      with repeat_calls_invalid [OF assms fresh False, of calls] fu show ?thesis by simp
    next
      case valid: True
      show ?thesis
      proof (cases calls)
        case Nil
        with fu show ?thesis by (simp add: run_completions_def)
      next
        case (Cons c cs)
        obtain now1 pf1 nt1 where c: "c = (now1, pf1, nt1)" by (cases c)
        let ?u1 = "credit_task now1 task (case pf1 of None \<Rightarrow> [] | Some s \<Rightarrow> s)
                     (case nt1 of None \<Rightarrow> [] | Some s \<Rightarrow> s) u"
        let ?us1 = "write_user ?u1 us"
        have step: "complete_step (now1, requester, tid, pf1, nt1) us = ?us1"
          using complete_fresh [OF assms fresh valid, of now1 pf1 nt1]
          by (simp add: complete_step_def)
        have f1: "findUser requester ?us1 = Some ?u1"
          using fu id by (simp add: findUser_write_user)
        then have a1: "auth ?us1 requester = Inr ?u1" using act by (simp add: auth_Inr)
        have seen: "find (\<lambda>ct. taskId ct = tid) (completedBonusTasks ?u1) \<noteq> None"
          using findTask_id [OF assms(2)] by (simp add: find_append_last)
        have "run_completions (?reqs calls) us = run_completions (?reqs cs) ?us1"
          by (simp add: Cons c run_completions_def step)
        also have "\<dots> = ?us1" using a1 assms(2) seen by (rule repeat_calls_rejected)
        finally have fin: "run_completions (?reqs calls) us = ?us1" .
        have "length (filter (\<lambda>ct. taskId ct = tid) (completedBonusTasks ?u1)) = 1"
          using findTask_id [OF assms(2)] find_None_filter [OF fresh] by simp
        then have after: "points ?u1 = points u + task_points task \<and>
            length (filter (\<lambda>ct. taskId ct = tid) (completedBonusTasks ?u1)) = 1"
          by simp
        have ne: "calls \<noteq> []" using Cons by simp
        show ?thesis
        proof (intro exI [of _ ?u1] conjI)
          show "findUser requester (run_completions (?reqs calls) us) = Some ?u1"
            unfolding fin by (rule f1)
          show "if find (\<lambda>ct. taskId ct = tid) (completedBonusTasks u) \<noteq> None \<or> calls = [] \<or>
                   \<not> user_schema_valid u
            then points ?u1 = points u \<and> completedBonusTasks ?u1 = completedBonusTasks u
            else points ?u1 = points u + task_points task \<and>
                 length (filter (\<lambda>ct. taskId ct = tid) (completedBonusTasks ?u1)) = 1"
            using fresh ne valid after by (simp only: if_False simp_thms)
        qed
      qed
    qed
  qed
qed

lemma length_milestone: "length (milestone now n) = (if n = 1 \<or> n = 5 \<or> n = 10 then 1 else 0)"
  by (simp add: milestone_def)

lemma titles_milestone: "map a_title (milestone now n) = map a_title (milestone 0 n)"
  by (simp add: milestone_def)

lemma milestone_titles_distinct:
  "distinct (concat (map (\<lambda>n. map a_title (milestone 0 n)) [a..<b]))"
proof -
  let ?P = "\<lambda>n::nat. n = 1 \<or> n = 5 \<or> n = 10"
  let ?t = "\<lambda>n::nat. if n = 1 then ''Birinchi bonus vazifa''
                    else if n = 5 then ''Faol o'quvchi'' else ''Bonus ustasi''"
  have shape: "concat (map (\<lambda>n. map a_title (milestone 0 n)) xs) = map ?t (filter ?P xs)" for xs
    by (induction xs) (simp_all add: milestone_def)
  have "inj_on ?t {n. ?P n}"
    by (auto simp: inj_on_def)
  then have "inj_on ?t (set (filter ?P [a..<b]))"
    by (rule inj_on_subset) auto
  then have "distinct (map ?t (filter ?P [a..<b]))"
    by (simp add: distinct_map)
  then show ?thesis by (simp only: shape)
qed

lemma complete_step_user:
  assumes "findUser i us = Some u"
  shows "\<exists>u1. findUser i (complete_step req us) = Some u1 \<and>
           ((completedBonusTasks u1 = completedBonusTasks u \<and> achievements u1 = achievements u) \<or>
            (\<exists>now. length (completedBonusTasks u1) = Suc (length (completedBonusTasks u)) \<and>
               achievements u1 =
                 achievements u @ milestone now (Suc (length (completedBonusTasks u)))))"
proof -
  obtain now requester tid pf nt where req: "req = (now, requester, tid, pf, nt)"
    by (cases req)
  from complete_cases [of now us requester tid pf nt] show ?thesis
  proof (elim disjE exE conjE)
    fix e assume "complete_bonus_task now us requester tid pf nt = (Inl e, us)"
    then have "complete_step req us = us" by (simp add: req complete_step_def)
    with assms show ?thesis by simp
  next
    fix v task p n
    assume a: "auth us requester = Inr v"
      and s: "snd (complete_bonus_task now us requester tid pf nt) =
                write_user (credit_task now task p n v) us"
    from a have fv: "findUser requester us = Some v" by (simp add: auth_Inr)
    then have idv: "user_id v = requester" by (simp add: findUser_Some)
    have step: "complete_step req us = write_user (credit_task now task p n v) us"
      by (simp add: req complete_step_def s)
    show ?thesis
    proof (cases "requester = i")
      case True
      with fv assms have "v = u" by simp
      with True assms idv have "findUser i (complete_step req us) = Some (credit_task now task p n u)"
        by (simp add: step findUser_write_user)
      then show ?thesis by auto
    next
      case False
      with assms idv have "findUser i (complete_step req us) = Some u"
        by (auto simp add: step findUser_write_user)
      then show ?thesis by simp
    qed
  qed
qed

lemma run_completions_achievements:
  "findUser i us = Some u \<Longrightarrow>
   \<exists>u' added. findUser i (run_completions reqs us) = Some u' \<and>
      length (completedBonusTasks u) \<le> length (completedBonusTasks u') \<and>
      achievements u' = achievements u @ added \<and>
      map a_title added =
        concat (map (\<lambda>n. map a_title (milestone 0 n))
          [Suc (length (completedBonusTasks u))..<Suc (length (completedBonusTasks u'))])"
  unfolding run_completions_def
proof (induction reqs arbitrary: us u)
  case Nil
  then show ?case by simp
next
  case (Cons req reqs)
  from complete_step_user [OF Cons.prems, of req] obtain u1 where
    f1: "findUser i (complete_step req us) = Some u1" and
    alt: "(completedBonusTasks u1 = completedBonusTasks u \<and> achievements u1 = achievements u) \<or>
          (\<exists>now. length (completedBonusTasks u1) = Suc (length (completedBonusTasks u)) \<and>
             achievements u1 =
               achievements u @ milestone now (Suc (length (completedBonusTasks u))))"
    by blast
  from Cons.IH [OF f1] obtain u' added where
    fin: "findUser i (fold complete_step reqs (complete_step req us)) = Some u'" and
    le: "length (completedBonusTasks u1) \<le> length (completedBonusTasks u')" and
    app: "achievements u' = achievements u1 @ added" and
    ttl: "map a_title added =
        concat (map (\<lambda>n. map a_title (milestone 0 n))
          [Suc (length (completedBonusTasks u1))..<Suc (length (completedBonusTasks u'))])"
    by blast
  from alt show ?case
  proof
    assume "completedBonusTasks u1 = completedBonusTasks u \<and> achievements u1 = achievements u"
    with fin le app ttl show ?thesis by auto
  next
    assume "\<exists>now. length (completedBonusTasks u1) = Suc (length (completedBonusTasks u)) \<and>
             achievements u1 =
               achievements u @ milestone now (Suc (length (completedBonusTasks u)))"
    then obtain now where
      l1: "length (completedBonusTasks u1) = Suc (length (completedBonusTasks u))" and
      a1: "achievements u1 = achievements u @ milestone now (Suc (length (completedBonusTasks u)))"
      by blast
    let ?n = "length (completedBonusTasks u)"
    let ?m = "length (completedBonusTasks u')"
    from le l1 have lt: "Suc ?n < Suc ?m" by simp
    have range: "[Suc ?n..<Suc ?m] = Suc ?n # [Suc (Suc ?n)..<Suc ?m]"
      using lt by (rule upt_conv_Cons)
    have "achievements u' = achievements u @ (milestone now (Suc ?n) @ added)"
      by (simp add: app a1)
    moreover have "map a_title (milestone now (Suc ?n) @ added) =
        concat (map (\<lambda>n. map a_title (milestone 0 n)) [Suc ?n..<Suc ?m])"
      unfolding range using ttl titles_milestone [of now "Suc ?n"] by (simp add: l1)
    moreover have "?n \<le> ?m" using le l1 by simp
    ultimately show ?thesis using fin by auto
  qed
qed

text \<open>
  C8. A successful completion makes the completed-task count one larger and appends to the
  student's achievements the milestone of the new count: one record when the count is
  exactly 1, 5 or 10, none otherwise. Over any sequence of completion requests the old
  achievements stay in place, and what is appended are the milestones of the counts passed,
  each once (their titles are distinct).
\<close>

theorem achievements_at_milestones:
  assumes "auth us requester = Inr u"
  shows
    "(fst (complete_bonus_task now us requester tid pf nt) = Inr res \<longrightarrow>
        (\<exists>u'. findUser requester (snd (complete_bonus_task now us requester tid pf nt)) = Some u' \<and>
           length (completedBonusTasks u') = Suc (length (completedBonusTasks u)) \<and>
           achievements u' =
             achievements u @ milestone now (length (completedBonusTasks u')))) \<and>
     (\<forall>n. length (milestone now n) = (if n = 1 \<or> n = 5 \<or> n = 10 then 1 else 0)) \<and>
     (\<exists>u' added. findUser requester (run_completions reqs us) = Some u' \<and>
        length (completedBonusTasks u) \<le> length (completedBonusTasks u') \<and>
        achievements u' = achievements u @ added \<and>
        map a_title added =
          concat (map (\<lambda>n. map a_title (milestone 0 n))
            [Suc (length (completedBonusTasks u))..<Suc (length (completedBonusTasks u'))]) \<and>
        distinct (map a_title added))"
proof (intro conjI impI allI)
  from assms have fu: "findUser requester us = Some u" and act: "u_isActive u"
    by (simp_all add: auth_Inr)
  from fu have id: "user_id u = requester" by (simp add: findUser_Some)
  {
    assume ok: "fst (complete_bonus_task now us requester tid pf nt) = Inr res"
    from complete_cases [of now us requester tid pf nt]
    show "\<exists>u'. findUser requester (snd (complete_bonus_task now us requester tid pf nt)) = Some u' \<and>
           length (completedBonusTasks u') = Suc (length (completedBonusTasks u)) \<and>
           achievements u' = achievements u @ milestone now (length (completedBonusTasks u'))"
    proof (elim disjE exE conjE)
      fix e assume "complete_bonus_task now us requester tid pf nt = (Inl e, us)"
      with ok show ?thesis by simp
    next
      fix v task p n
      assume a: "auth us requester = Inr v"
        and s: "snd (complete_bonus_task now us requester tid pf nt) =
                  write_user (credit_task now task p n v) us"
      from a assms have "v = u" by simp
      with fu id show ?thesis
        by (simp add: s findUser_write_user)
    qed
  }
  show "length (milestone now n) = (if n = 1 \<or> n = 5 \<or> n = 10 then 1 else 0)" for n
    by (rule length_milestone)
  from run_completions_achievements [OF fu, of reqs] obtain u' added where
    r: "findUser requester (run_completions reqs us) = Some u'"
       "length (completedBonusTasks u) \<le> length (completedBonusTasks u')"
       "achievements u' = achievements u @ added"
       "map a_title added =
          concat (map (\<lambda>n. map a_title (milestone 0 n))
            [Suc (length (completedBonusTasks u))..<Suc (length (completedBonusTasks u'))])"
    by blast
  have "distinct (map a_title added)"
    unfolding r(4) by (rule milestone_titles_distinct)
  with r show "\<exists>u' added. findUser requester (run_completions reqs us) = Some u' \<and>
        length (completedBonusTasks u) \<le> length (completedBonusTasks u') \<and>
        achievements u' = achievements u @ added \<and>
        map a_title added =
          concat (map (\<lambda>n. map a_title (milestone 0 n))
            [Suc (length (completedBonusTasks u))..<Suc (length (completedBonusTasks u'))]) \<and>
        distinct (map a_title added)"
    by blast
qed

lemma buyer_facts:
  "auth [buyer] 5 = Inr buyer" "findTask 3 = Some helper_task"
  "find (\<lambda>ct. taskId ct = 3) (completedBonusTasks buyer) = None"
  "points buyer = 100" "achievements buyer = []" "completedBonusTasks buyer = []"
  by (simp_all add: auth_def findUser_def buyer_def findTask_def bonusTasksData_def
      helper_task_def)

lemma buyer_valid: "user_schema_valid buyer"
  by (simp add: user_schema_valid_def required_string_def buyer_def)

lemma longname_facts:
  "auth [longname] 5 = Inr longname"
  "find (\<lambda>ct. taskId ct = 3) (completedBonusTasks longname) = None"
  "\<not> user_schema_valid longname"
  by (simp_all add: longname_def buyer_def auth_def findUser_def user_schema_valid_def)

lemma veteran_facts:
  "auth [veteran] 5 = Inr veteran"
  "find (\<lambda>ct. taskId ct = 3) (completedBonusTasks veteran) \<noteq> None"
  "points veteran = 115"
  by (simp_all add: veteran_def auth_def findUser_def buyer_def helper_task_def)

text \<open>
  C7 as stated fails for a student whose stored user document does not pass the validators:
  the task is not among the completed ones, yet every completion call is answered 500, and
  after two calls the balance is still 100 and no completion is recorded.
\<close>

theorem bonus_task_not_credited:
  "auth [longname] 5 = Inr longname \<and> findTask 3 = Some helper_task \<and>
   find (\<lambda>ct. taskId ct = 3) (completedBonusTasks longname) = None \<and>
   length (firstName longname) = 51 \<and> points longname = 100 \<and>
   complete_bonus_task 7 [longname] 5 3 None None = (Inl ServerError, [longname]) \<and>
   run_completions [(7, 5, 3, None, None), (8, 5, 3, None, None)] [longname] = [longname]"
proof -
  have call: "complete_bonus_task now [longname] 5 3 None None = (Inl ServerError, [longname])"
    for now
    by (simp add: complete_bonus_task_def auth_def findUser_def findTask_def
        bonusTasksData_def longname_def buyer_def credit_task_def user_schema_valid_def
        Let_def)
  have "run_completions [(7, 5, 3, None, None), (8, 5, 3, None, None)] [longname] = [longname]"
    by (simp add: run_completions_def complete_step_def call)
  moreover have "auth [longname] 5 = Inr longname" "findTask 3 = Some helper_task"
    "find (\<lambda>ct. taskId ct = 3) (completedBonusTasks longname) = None"
    "length (firstName longname) = 51" "points longname = 100"
    by (simp_all add: auth_def findUser_def findTask_def bonusTasksData_def longname_def
        buyer_def helper_task_def)
  ultimately show ?thesis using call [of 7] by simp
qed

text \<open>
  Task 3 completed twice: 15 points once, the second call rejected; and the call of a
  student whose user document fails a validator, answered 500.
\<close>

theorem bonus_task_credited_once_example:
  "auth [buyer] 5 = Inr buyer \<and> findTask 3 = Some helper_task \<and>
   find (\<lambda>ct. taskId ct = 3) (completedBonusTasks buyer) = None \<and>
   user_schema_valid buyer \<and>
   points buyer = 100 \<and> task_points helper_task = 15 \<and>
   map_option points
     (findUser 5 (run_completions [(1, 5, 3, None, None), (2, 5, 3, Some ''again'', None)]
        [buyer])) = Some 115 \<and>
   auth [veteran] 5 = Inr veteran \<and>
   find (\<lambda>ct. taskId ct = 3) (completedBonusTasks veteran) \<noteq> None \<and>
   complete_bonus_task 2 [veteran] 5 3 None None = (Inl AlreadyCompleted, [veteran]) \<and>
   auth [longname] 5 = Inr longname \<and>
   find (\<lambda>ct. taskId ct = 3) (completedBonusTasks longname) = None \<and>
   \<not> user_schema_valid longname \<and>
   complete_bonus_task 2 [longname] 5 3 None None = (Inl ServerError, [longname])"
proof -
  have refused: "complete_bonus_task 2 [longname] 5 3 None None = (Inl ServerError, [longname])"
    using bonus_task_credited_once [OF longname_facts(1) buyer_facts(2), of 2 None None "[]"]
      longname_facts(2,3) by blast
  have again: "complete_bonus_task 2 [veteran] 5 3 None None = (Inl AlreadyCompleted, [veteran])"
    using bonus_task_credited_once [OF veteran_facts(1) buyer_facts(2), of 2 None None "[]"]
      veteran_facts(2) by blast
  from bonus_task_credited_once [OF buyer_facts(1,2), of 0 None None
      "[(1, None, None), (2, Some ''again'', None)]"]
  obtain u' where
    "findUser 5 (run_completions [(1, 5, 3, None, None), (2, 5, 3, Some ''again'', None)]
       [buyer]) = Some u'"
    "points u' = points buyer + task_points helper_task"
    using buyer_facts(3) buyer_valid by auto
  then have twice: "map_option points
     (findUser 5 (run_completions [(1, 5, 3, None, None), (2, 5, 3, Some ''again'', None)]
        [buyer])) = Some 115"
    by (simp add: buyer_facts(4) helper_task_def)
  have "task_points helper_task = 15" by (simp add: helper_task_def)
  with again twice refused buyer_facts(1,2,3,4) buyer_valid veteran_facts(1,2) longname_facts
  show ?thesis by blast
qed

lemma first_completion:
  "complete_bonus_task 7 [buyer] 5 3 None None =
     (Inr \<lparr>res_pointsEarned = 15, res_totalPoints = 115, res_newAchievements = milestone 7 1\<rparr>,
      [veteran])"
  by (simp add: complete_bonus_task_def auth_def findUser_def findTask_def bonusTasksData_def
      buyer_def veteran_def helper_task_def credit_task_def write_user_def milestone_def
      user_schema_valid_def required_string_def Let_def)

lemma five_completions:
  "map (\<lambda>u. (length (completedBonusTasks u), map a_title (achievements u), points u))
     (run_completions five_tasks [buyer]) =
   [(5, [''Birinchi bonus vazifa'', ''Faol o'quvchi''], 230)]"
  by (simp add: run_completions_def five_tasks_def complete_step_def complete_bonus_task_def
      auth_def findUser_def findTask_def bonusTasksData_def buyer_def credit_task_def
      write_user_def milestone_def user_schema_valid_def required_string_def Let_def)

text \<open>
  The first completion earns the first badge; five completions earn the badges of the
  counts 1 and 5 and nothing in between.
\<close>

theorem achievements_at_milestones_example:
  "auth [buyer] 5 = Inr buyer \<and>
   fst (complete_bonus_task 7 [buyer] 5 3 None None) =
     Inr \<lparr>res_pointsEarned = 15, res_totalPoints = 115, res_newAchievements = milestone 7 1\<rparr> \<and>
   achievements buyer = [] \<and>
   map_option achievements (findUser 5 (snd (complete_bonus_task 7 [buyer] 5 3 None None))) =
     Some (milestone 7 1) \<and>
   length (milestone 7 1) = 1 \<and> length (milestone 7 2) = 0 \<and> length (milestone 7 4) = 0 \<and>
   length (milestone 7 5) = 1 \<and> length (milestone 7 9) = 0 \<and> length (milestone 7 10) = 1 \<and>
   length (milestone 7 11) = 0 \<and>
   map (\<lambda>u. (length (completedBonusTasks u), map a_title (achievements u), points u))
     (run_completions five_tasks [buyer]) =
   [(5, [''Birinchi bonus vazifa'', ''Faol o'quvchi''], 230)]"
proof -
  note inst = achievements_at_milestones [OF buyer_facts(1), of 7 3 None None
      "\<lparr>res_pointsEarned = 15, res_totalPoints = 115, res_newAchievements = milestone 7 1\<rparr>"
      five_tasks]
  have ok: "fst (complete_bonus_task 7 [buyer] 5 3 None None) =
     Inr \<lparr>res_pointsEarned = 15, res_totalPoints = 115, res_newAchievements = milestone 7 1\<rparr>"
    unfolding first_completion by simp
  with inst obtain u' where
    u': "findUser 5 (snd (complete_bonus_task 7 [buyer] 5 3 None None)) = Some u'"
        "length (completedBonusTasks u') = Suc (length (completedBonusTasks buyer))"
        "achievements u' = achievements buyer @ milestone 7 (length (completedBonusTasks u'))"
    by blast
  then have ach: "map_option achievements
      (findUser 5 (snd (complete_bonus_task 7 [buyer] 5 3 None None))) = Some (milestone 7 1)"
    by (simp add: buyer_facts(5,6))
  from inst have len: "length (milestone 7 n) = (if n = 1 \<or> n = 5 \<or> n = 10 then 1 else 0)" for n
    by blast
  show ?thesis
    using buyer_facts(1,5) ok ach five_completions
      len [of 1] len [of 2] len [of 4] len [of 5] len [of 9] len [of 10] len [of 11]
    by simp
qed

lemma shop_run: "balance 5 (run_ledger shop_ops shop) = 85"
  by (simp add: run_ledger_def shop_ops_def shop_def buyer_def pencil_def book_def laptop_def
      balance_def claim_reward_def claim_plan_def complete_bonus_task_def
      auth_def authorize_def findUser_def findReward_def findTask_def bonusTasksData_def
      claimed_by_def credit_task_def write_user_def write_reward_def milestone_def
      user_schema_valid_def required_string_def Let_def)

text \<open>
  A run on the shop: two rejected claims, a claim, a completion, a rejected repetition and a
  second claim leave 85 points; the reward of 500 points is refused to a balance of 100.
\<close>

theorem balance_never_negative_example:
  "map points (users shop) = [100] \<and>
   0 \<le> balance 5 (run_ledger shop_ops shop) \<and>
   balance 5 (run_ledger shop_ops shop) = 85 \<and>
   auth (users shop) 5 = Inr buyer \<and> authorize [Student] buyer \<and>
   findReward 13 (rewards shop) = Some laptop \<and>
   balance 5 shop = 100 \<and> pointsRequired laptop = 500 \<and>
   claim_reward 1 shop 5 13 = (Inl InsufficientPoints, shop)"
proof -
  have pts: "map points (users shop) = [100]" by (simp add: shop_def buyer_def)
  then have nonneg: "\<forall>u\<in>set (users shop). 0 \<le> points u"
    by (simp add: shop_def buyer_def)
  have l: "findReward 13 (rewards shop) = Some laptop"
    by (simp add: shop_def findReward_def pencil_def book_def laptop_def)
  have b: "balance 5 shop = 100" "pointsRequired laptop = 500"
    by (simp_all add: balance_def findUser_def shop_def buyer_def laptop_def)
  note inst = balance_never_negative [OF nonneg, of shop_ops 5 buyer 13 laptop 1]
  from inst have "0 \<le> balance 5 (run_ledger shop_ops shop)" by blast
  moreover from inst shop_facts(1,2) l b
  have "claim_reward 1 shop 5 13 = (Inl InsufficientPoints, shop)" by simp
  ultimately show ?thesis
    using pts shop_facts(1,2) l b shop_run by simp
qed

end
